theory Spec2Isabelle
  imports
    Complex_Main
    "HOL-Library.AList"
    "HOL-Library.Multiset"
    "HOL-Library.Char_ord"
    "HOL-Library.List_Lexorder"
    "HOL-Library.Log_Nat"
begin

section \<open>Grouping requests: \<^verbatim>\<open>db/records/operations/group.py\<close>\<close>

text \<open>
  The module builds grouping queries (class \<^verbatim>\<open>GroupBy\<close>, the two query builders) and
  post-processes the fetched rows (\<^verbatim>\<open>extract_group_metadata\<close>). Python exceptions are
  values of type \<open>error\<close>; a function that may raise returns \<open>error + 'a\<close> with \<open>Inl\<close>
  for the exception.
\<close>

subsection \<open>Python values of the request\<close>

text \<open>
  The fields of \<^verbatim>\<open>GroupBy\<close> are dynamically typed and \<^verbatim>\<open>validate\<close> inspects
  \<^verbatim>\<open>type(...)\<close> of \<^verbatim>\<open>column_list\<close>, of its elements and of \<^verbatim>\<open>num_groups\<close>, so these are
  values of a small universe of Python objects, one constructor per exact type. A float
  is given by its exact (rational) value. \<^verbatim>\<open>group_mode\<close> is only compared by value with
  the two mode strings and is taken at its annotation \<^verbatim>\<open>str\<close>.
\<close>

datatype column = Column (col_table: string) (col_name: string)

datatype pyobj =
    NoneObj
  | BoolObj bool
  | IntObj int
  | FloatObj rat
  | StrObj string
  | ColumnObj column
  | ListObj "pyobj list"
  | TupleObj "pyobj list"

datatype GroupMode = DISTINCT | PERCENTILE

fun GroupMode_value :: "GroupMode \<Rightarrow> string" where
  "GroupMode_value DISTINCT = ''distinct''"
| "GroupMode_value PERCENTILE = ''percentile''"

definition GroupMode_members :: "GroupMode list" where
  "GroupMode_members = [DISTINCT, PERCENTILE]"

datatype GroupMetadataField = COUNT | GROUP_ID | FIRST_VALUE | LAST_VALUE

fun GroupMetadataField_value :: "GroupMetadataField \<Rightarrow> string" where
  "GroupMetadataField_value COUNT = ''count''"
| "GroupMetadataField_value GROUP_ID = ''group_id''"
| "GroupMetadataField_value FIRST_VALUE = ''first_value''"
| "GroupMetadataField_value LAST_VALUE = ''last_value''"

definition MATHESAR_GROUP_METADATA :: string where
  "MATHESAR_GROUP_METADATA = ''__mathesar_group_metadata''"

text \<open>
  The messages of \<^verbatim>\<open>rec_exc.BadGroupFormat\<close>, one constructor per \<^verbatim>\<open>raise\<close> of the module.
\<close>

datatype bad_group_format =
    ColumnListNotSequence      \<comment> \<open>\<^verbatim>\<open>"column_list must be list or tuple."\<close>\<close>
  | NumGroupsNotInteger        \<comment> \<open>\<^verbatim>\<open>'percentile group_mode requires integer num_groups'\<close>\<close>
  | ColumnNotStrOrColumn pyobj \<comment> \<open>\<^verbatim>\<open>f"Group column {col} must be a string or Column."\<close>\<close>
  | UnknownError               \<comment> \<open>\<^verbatim>\<open>"Unknown error"\<close>\<close>

datatype error =
    BadGroupFormat bad_group_format
  | InvalidGroupType string
  | GroupFieldNotFound pyobj
  | TypeError
  | KeyError
  | AttributeError
  | ValueError
  | JSONDecodeError
  | InvalidRequestError   \<comment> \<open>\<^verbatim>\<open>sqlalchemy.exc.InvalidRequestError\<close>\<close>
  | ProgrammingError      \<comment> \<open>\<^verbatim>\<open>sqlalchemy.exc.ProgrammingError\<close>: the database rejects the statement\<close>

record GroupBy =
  column_list :: pyobj
  group_mode :: string
  num_groups :: pyobj

text \<open>The dataclass defaults: \<^verbatim>\<open>group_mode = GroupMode.DISTINCT.value\<close>, \<^verbatim>\<open>num_groups = 12\<close>.\<close>

definition GroupBy_default :: "pyobj \<Rightarrow> GroupBy" where
  "GroupBy_default cols =
     \<lparr>column_list = cols, group_mode = GroupMode_value DISTINCT, num_groups = IntObj 12\<rparr>"

subsection \<open>\<^verbatim>\<open>GroupBy.validate\<close>\<close>

text \<open>\<^verbatim>\<open>type(x) in (tuple, list)\<close>: the exact type, no subclass.\<close>

fun is_tuple_or_list :: "pyobj \<Rightarrow> bool" where
  "is_tuple_or_list (ListObj _) = True"
| "is_tuple_or_list (TupleObj _) = True"
| "is_tuple_or_list _ = False"

text \<open>The elements a \<^verbatim>\<open>for\<close> loop over the object visits (reached for a list or tuple only).\<close>

fun elements :: "pyobj \<Rightarrow> pyobj list" where
  "elements (ListObj xs) = xs"
| "elements (TupleObj xs) = xs"
| "elements _ = []"

text \<open>\<^verbatim>\<open>type(x) == int\<close>: \<^verbatim>\<open>bool\<close> is a subclass of \<^verbatim>\<open>int\<close> and so is not \<^verbatim>\<open>int\<close> itself.\<close>

fun is_int :: "pyobj \<Rightarrow> bool" where
  "is_int (IntObj _) = True"
| "is_int _ = False"

text \<open>\<^verbatim>\<open>type(col) in (str, Column)\<close>.\<close>

fun is_str_or_Column :: "pyobj \<Rightarrow> bool" where
  "is_str_or_Column (StrObj _) = True"
| "is_str_or_Column (ColumnObj _) = True"
| "is_str_or_Column _ = False"

text \<open>
  The loop \<^verbatim>\<open>for col in self.column_list: if type(col) not in (str, Column): raise ...\<close>:
  the first offending element is the one reported.
\<close>

fun validate_columns :: "pyobj list \<Rightarrow> error + unit" where
  "validate_columns [] = Inr ()"
| "validate_columns (col # cols) =
     (if \<not> is_str_or_Column col then Inl (BadGroupFormat (ColumnNotStrOrColumn col))
      else validate_columns cols)"

definition validate :: "GroupBy \<Rightarrow> error + unit" where
  "validate self =
     (if \<not> is_tuple_or_list (column_list self) then
        Inl (BadGroupFormat ColumnListNotSequence)
      else if group_mode self \<notin> set (map GroupMode_value GroupMode_members) then
        Inl (InvalidGroupType (group_mode self))
      else if group_mode self = GroupMode_value PERCENTILE \<and> \<not> is_int (num_groups self) then
        Inl (BadGroupFormat NumGroupsNotInteger)
      else validate_columns (elements (column_list self)))"

subsection \<open>\<^verbatim>\<open>GroupBy.get_validated_group_by_columns\<close>\<close>

text \<open>
  A table exposes its columns by name (\<^verbatim>\<open>table.columns\<close>); \<^verbatim>\<open>name in table.columns\<close> asks
  whether a column of that name exists and \<^verbatim>\<open>table.columns[name]\<close> is that column.
\<close>

record table =
  table_name :: string
  columns :: "column list"

definition has_column :: "table \<Rightarrow> string \<Rightarrow> bool" where
  "has_column t n = (n \<in> set (map col_name (columns t)))"

definition column_named :: "table \<Rightarrow> string \<Rightarrow> error + column" where
  "column_named t n =
     (case find (\<lambda>c. col_name c = n) (columns t) of
        None \<Rightarrow> Inl KeyError
      | Some c \<Rightarrow> Inr c)"

text \<open>
  \<^verbatim>\<open>col if isinstance(col, str) else col.name\<close>; of the objects modelled only a
  \<^verbatim>\<open>Column\<close> has the attribute \<^verbatim>\<open>name\<close>.
\<close>

fun column_name_of :: "pyobj \<Rightarrow> error + string" where
  "column_name_of (StrObj s) = Inr s"
| "column_name_of (ColumnObj c) = Inr (col_name c)"
| "column_name_of _ = Inl AttributeError"

text \<open>
  The loop of \<^verbatim>\<open>get_validated_group_by_columns\<close> that raises
  \<^verbatim>\<open>GroupFieldNotFound\<close> at the first reference whose name the table lacks.
\<close>

fun check_columns_found :: "table \<Rightarrow> pyobj list \<Rightarrow> error + unit" where
  "check_columns_found t [] = Inr ()"
| "check_columns_found t (col # cols) =
     (case column_name_of col of
        Inl e \<Rightarrow> Inl e
      | Inr n \<Rightarrow>
          if \<not> has_column t n then Inl (GroupFieldNotFound col)
          else check_columns_found t cols)"

text \<open>
  Modelled from the spec: \<^verbatim>\<open>create_col_objects\<close> is imported from \<^verbatim>\<open>db.records.utils\<close>,
  which is not among the sources. The specification says of it that resolution "returns
  the ordered sequence of resolved column handles in the same order as \<^verbatim>\<open>column_list\<close>":
  each reference, by its name, is replaced by the table's own column of that name.
\<close>

fun create_col_objects :: "table \<Rightarrow> pyobj list \<Rightarrow> error + column list" where
  "create_col_objects t [] = Inr []"
| "create_col_objects t (col # cols) =
     (case column_name_of col of
        Inl e \<Rightarrow> Inl e
      | Inr n \<Rightarrow>
          (case column_named t n of
             Inl e \<Rightarrow> Inl e
           | Inr c \<Rightarrow>
               (case create_col_objects t cols of
                  Inl e \<Rightarrow> Inl e
                | Inr cs \<Rightarrow> Inr (c # cs))))"

definition get_validated_group_by_columns :: "GroupBy \<Rightarrow> table \<Rightarrow> error + column list" where
  "get_validated_group_by_columns self t =
     (case validate self of
        Inl e \<Rightarrow> Inl e
      | Inr _ \<Rightarrow>
          (case check_columns_found t (elements (column_list self)) of
             Inl e \<Rightarrow> Inl e
           | Inr _ \<Rightarrow> create_col_objects t (elements (column_list self))))"

subsection \<open>Query expressions\<close>

text \<open>
  The SQLAlchemy constructs the builders use, as syntax trees: columns of a table, columns
  of a named intermediate result (\<^verbatim>\<open>select(...).cte()\<close>), \<^verbatim>\<open>literal\<close>, \<^verbatim>\<open>func.f(...)\<close>,
  \<^verbatim>\<open>.over(partition_by, order_by, range_)\<close>, \<^verbatim>\<open>.label\<close>, \<^verbatim>\<open>and_\<close>, the comparisons
  \<^verbatim>\<open>>\<close> and \<^verbatim>\<open><=\<close>, and \<^verbatim>\<open>case\<close>. A numeric literal (\<open>LiteralNum\<close>) carries the
  value of a Python float, a rational number.
\<close>

datatype expr =
    Col column
  | CteCol select string
  | LiteralStr string
  | LiteralInt int
  | LiteralNum rat
  | FuncCall string "expr list"
  | Over expr "expr list" "expr list" "(int option \<times> int option) option"
  | Label expr string
  | And expr expr
  | Gt expr expr
  | Le expr expr
  | Case "(expr \<times> expr) list"
and select = Select "expr list"

text \<open>\<^verbatim>\<open>col.name\<close> of a selected expression; only columns and labelled expressions are named.\<close>

fun expr_name :: "expr \<Rightarrow> string option" where
  "expr_name (Col c) = Some (col_name c)"
| "expr_name (CteCol _ n) = Some n"
| "expr_name (Label _ n) = Some n"
| "expr_name _ = None"

fun selected :: "select \<Rightarrow> expr list" where
  "selected (Select es) = es"

text \<open>\<^verbatim>\<open>cte.columns\<close>: one column of the intermediate result per named selected expression.\<close>

definition cte_columns :: "select \<Rightarrow> expr list" where
  "cte_columns s = map (CteCol s) (List.map_filter expr_name (selected s))"

text \<open>\<^verbatim>\<open>select(table, e)\<close>: every column of the table, then \<open>e\<close>.\<close>

definition select_table_and :: "table \<Rightarrow> expr \<Rightarrow> select" where
  "select_table_and t e = Select (map Col (columns t) @ [e])"

record GroupingWindowDefinition =
  partition_by :: "expr list"
  order_by :: "expr list"
  window_range :: "int option \<times> int option"

text \<open>
  The field \<^verbatim>\<open>range_\<close> (here \<open>window_range\<close>) is not an argument of the constructor: it is
  always \<^verbatim>\<open>(None, None)\<close>.
\<close>

definition GroupingWindowDefinition_init :: "expr list \<Rightarrow> expr list \<Rightarrow> GroupingWindowDefinition" where
  "GroupingWindowDefinition_init ob pb = \<lparr>partition_by = pb, order_by = ob, window_range = (None, None)\<rparr>"

subsection \<open>The group metadata expression\<close>

text \<open>\<^verbatim>\<open>_get_group_metadata_definition\<close> (the leading underscore is dropped in the names).\<close>

definition expr_name_str :: "expr \<Rightarrow> string" where
  "expr_name_str e = (case expr_name e of Some n \<Rightarrow> n | None \<Rightarrow> ''None'')"

definition get_group_metadata_definition ::
  "GroupingWindowDefinition \<Rightarrow> expr list \<Rightarrow> expr \<Rightarrow> expr" where
  "get_group_metadata_definition window_def grouping_columns group_id_expr =
     (let col_key_value_list =
            concat (map (\<lambda>col. [LiteralStr (expr_name_str col), col]) grouping_columns);
          inner_grouping_object = FuncCall ''json_build_object'' col_key_value_list
      in Label
           (FuncCall ''json_build_object''
              [LiteralStr (GroupMetadataField_value GROUP_ID),
               group_id_expr,
               LiteralStr (GroupMetadataField_value COUNT),
               Over (FuncCall ''count'' [LiteralInt 1]) (partition_by window_def) [] None,
               LiteralStr (GroupMetadataField_value FIRST_VALUE),
               Over (FuncCall ''first_value'' [inner_grouping_object])
                 (partition_by window_def) (order_by window_def) (Some (window_range window_def)),
               LiteralStr (GroupMetadataField_value LAST_VALUE),
               Over (FuncCall ''last_value'' [inner_grouping_object])
                 (partition_by window_def) (order_by window_def) (Some (window_range window_def))])
           MATHESAR_GROUP_METADATA)"

subsection \<open>The distinct builder\<close>

definition get_distinct_group_select :: "table \<Rightarrow> column list \<Rightarrow> select" where
  "get_distinct_group_select t grouping_columns =
     (let window_def =
            GroupingWindowDefinition_init (map Col grouping_columns) (map Col grouping_columns);
          group_id_expr =
            Over (FuncCall ''dense_rank'' []) [] (order_by window_def) (Some (window_range window_def))
      in select_table_and t
           (get_group_metadata_definition window_def (map Col grouping_columns) group_id_expr))"

subsection \<open>Double-precision division\<close>

text \<open>
  Python's \<^verbatim>\<open>i / num_groups\<close> on two \<^verbatim>\<open>int\<close>s is a float: the IEEE 754 double nearest to
  the exact quotient, a tie going to the even significand. A positive double is
  \<open>m * 2 ^ k\<close> with an integer \<open>m < 2 ^ 53\<close> and \<open>k \<ge> - 1074\<close>; for \<open>2 ^ e \<le> q < 2 ^ (e + 1)\<close>
  the doubles around \<open>q\<close> are the multiples of \<open>2 ^ k\<close> for \<open>k = max (e - 52) (- 1074)\<close>
  (\<open>ulp_exponent\<close>; the second bound is that of the subnormal numbers). PostgreSQL computes
  \<^verbatim>\<open>cume_dist()\<close> by the same division, of two row counts. The quotients of this module lie
  between 0 and 1, so the overflow of larger quotients is left out.
\<close>

definition round_half_even :: "rat \<Rightarrow> int" where
  "round_half_even m =
     (let f = \<lfloor>m\<rfloor>; d = m - of_int f
      in if d < 1 / 2 then f
         else if 1 / 2 < d then f + 1
         else if even f then f else f + 1)"

text \<open>The \<open>e\<close> with \<open>2 ^ e \<le> q < 2 ^ (e + 1)\<close>, for \<open>q > 0\<close>, from the bit lengths of the fraction.\<close>

definition float_exponent :: "rat \<Rightarrow> int" where
  "float_exponent q =
     (let (a, b) = quotient_of q; d = bitlen a - bitlen b
      in if q < 2 powi d then d - 1 else d)"

definition ulp_exponent :: "rat \<Rightarrow> int" where
  "ulp_exponent q = max (float_exponent q - 52) (- 1074)"

definition to_double :: "rat \<Rightarrow> rat" where
  "to_double q =
     (if q = 0 then 0
      else sgn q * of_int (round_half_even (\<bar>q\<bar> / 2 powi ulp_exponent \<bar>q\<bar>))
             * 2 powi ulp_exponent \<bar>q\<bar>)"

definition float_div :: "int \<Rightarrow> int \<Rightarrow> rat" where
  "float_div a b = to_double (of_int a / of_int b)"

subsection \<open>The percentile builder\<close>

definition CUME_DIST :: string where
  "CUME_DIST = ''cume_dist''"

definition RANGE_ID :: string where
  "RANGE_ID = ''range_id''"

text \<open>
  The list comprehension over \<^verbatim>\<open>range(num_groups)\<close>: the pairs
  \<^verbatim>\<open>(and_(c > i / num_groups, c <= (i + 1) / num_groups), i + 1)\<close> (\<open>range_pair\<close>), the two
  bounds being Python floats. \<^verbatim>\<open>range\<close> of a number that is not positive is empty, so no
  division by zero is ever evaluated. (The parameters \<^verbatim>\<open>num_groups\<close> and \<^verbatim>\<open>column_list\<close>
  carry a prime: the plain names are the fields of \<open>GroupBy\<close>.)
\<close>

definition range_pair :: "expr \<Rightarrow> int \<Rightarrow> int \<Rightarrow> expr \<times> expr" where
  "range_pair c num_groups' i =
     (And (Gt c (LiteralNum (float_div i num_groups')))
          (Le c (LiteralNum (float_div (i + 1) num_groups'))),
      LiteralInt (i + 1))"

definition percentile_ranges :: "expr \<Rightarrow> int \<Rightarrow> (expr \<times> expr) list" where
  "percentile_ranges c num_groups' = map (range_pair c num_groups') [0..num_groups' - 1]"

text \<open>
  The two intermediate results of the builder, under the names of its local variables:
  stage 1 (\<^verbatim>\<open>cume_dist_cte\<close>) selects the table and the cumulative distribution over the
  grouping columns; stage 2 (\<^verbatim>\<open>ranges_cte\<close>) selects the columns of stage 1 but
  \<^verbatim>\<open>cume_dist\<close>, and the \<^verbatim>\<open>case\<close> over the ranges under the label \<^verbatim>\<open>range_id\<close>.
\<close>

definition cume_dist_cte :: "table \<Rightarrow> column list \<Rightarrow> select" where
  "cume_dist_cte t column_list' =
     select_table_and t
       (Label (Over (FuncCall ''cume_dist'' []) [] (map Col column_list') None) CUME_DIST)"

definition ranges_cte :: "table \<Rightarrow> column list \<Rightarrow> int \<Rightarrow> select" where
  "ranges_cte t column_list' num_groups' =
     (let ranges = percentile_ranges (CteCol (cume_dist_cte t column_list') CUME_DIST) num_groups'
      in Select
           (filter (\<lambda>col. expr_name col \<noteq> Some CUME_DIST)
              (cte_columns (cume_dist_cte t column_list'))
            @ [Label (Case ranges) RANGE_ID]))"

text \<open>
  The builder looks up \<^verbatim>\<open>cume_dist_cte.columns[CUME_DIST]\<close> and
  \<^verbatim>\<open>ranges_cte.columns[RANGE_ID]\<close>. When the table has a column of its own named
  \<^verbatim>\<open>cume_dist\<close> or \<^verbatim>\<open>range_id\<close>, the intermediate result has two columns of that name and
  SQLAlchemy raises \<^verbatim>\<open>InvalidRequestError\<close>; no statement is built.
\<close>

definition get_percentile_range_group_select ::
  "table \<Rightarrow> column list \<Rightarrow> int \<Rightarrow> error + select" where
  "get_percentile_range_group_select t column_list' num_groups' =
     (if has_column t CUME_DIST \<or> has_column t RANGE_ID then Inl InvalidRequestError
      else
        let column_names = map col_name column_list';
            ranges_agg_cols =
              filter (\<lambda>col. expr_name_str col \<in> set column_names)
                (cte_columns (ranges_cte t column_list' num_groups'));
            window_def =
              GroupingWindowDefinition_init ranges_agg_cols
                [CteCol (ranges_cte t column_list' num_groups') RANGE_ID];
            group_id_expr = CteCol (ranges_cte t column_list' num_groups') RANGE_ID
        in Inr (Select
                  (filter (\<lambda>col. has_column t (expr_name_str col))
                     (cte_columns (ranges_cte t column_list' num_groups'))
                   @ [get_group_metadata_definition window_def ranges_agg_cols group_id_expr])))"

subsection \<open>\<^verbatim>\<open>get_group_augmented_records_query\<close>\<close>

text \<open>
  \<^verbatim>\<open>range(num_groups)\<close> in the percentile builder needs an integer: an \<^verbatim>\<open>int\<close>, or a
  \<^verbatim>\<open>bool\<close> (a subclass of \<^verbatim>\<open>int\<close>); any other object raises \<^verbatim>\<open>TypeError\<close>.
\<close>

fun as_range_bound :: "pyobj \<Rightarrow> error + int" where
  "as_range_bound (IntObj n) = Inr n"
| "as_range_bound (BoolObj b) = Inr (if b then 1 else 0)"
| "as_range_bound _ = Inl TypeError"

definition get_group_augmented_records_query :: "table \<Rightarrow> GroupBy \<Rightarrow> error + select" where
  "get_group_augmented_records_query t group_by =
     (case get_validated_group_by_columns group_by t of
        Inl e \<Rightarrow> Inl e
      | Inr grouping_columns \<Rightarrow>
          if group_mode group_by = GroupMode_value PERCENTILE then
            (case as_range_bound (num_groups group_by) of
               Inl e \<Rightarrow> Inl e
             | Inr n \<Rightarrow> get_percentile_range_group_select t grouping_columns n)
          else if group_mode group_by = GroupMode_value DISTINCT then
            Inr (get_distinct_group_select t grouping_columns)
          else Inl (BadGroupFormat UnknownError))"

subsection \<open>The group id that a percentile statement computes\<close>

text \<open>
  What the database computes for the group id of one row. A row is given by the numeric
  values of the columns of the intermediate results (\<open>sql_row\<close>: by intermediate result and
  column name). A comparison is evaluated on the column it names, and on nothing else: an
  operand that is neither a column of an intermediate result nor a literal has no value
  here, and the statement is rejected.
\<close>

type_synonym sql_row = "select \<Rightarrow> string \<Rightarrow> rat option"

fun eval_num :: "sql_row \<Rightarrow> expr \<Rightarrow> rat option" where
  "eval_num row (CteCol s n) = row s n"
| "eval_num row (LiteralNum q) = Some q"
| "eval_num row (LiteralInt i) = Some (of_int i)"
| "eval_num row _ = None"

fun holds :: "sql_row \<Rightarrow> expr \<Rightarrow> bool option" where
  "holds row (And p q) =
     (case holds row p of
        None \<Rightarrow> None
      | Some a \<Rightarrow> (case holds row q of None \<Rightarrow> None | Some b \<Rightarrow> Some (a \<and> b)))"
| "holds row (Gt a b) =
     (case eval_num row a of
        None \<Rightarrow> None
      | Some x \<Rightarrow> (case eval_num row b of None \<Rightarrow> None | Some y \<Rightarrow> Some (y < x)))"
| "holds row (Le a b) =
     (case eval_num row a of
        None \<Rightarrow> None
      | Some x \<Rightarrow> (case eval_num row b of None \<Rightarrow> None | Some y \<Rightarrow> Some (x \<le> y)))"
| "holds row _ = None"

text \<open>
  \<^verbatim>\<open>CASE WHEN p1 THEN v1 ... END\<close>: the value of the first branch whose predicate holds,
  and \<^verbatim>\<open>NULL\<close> (\<open>None\<close>) when no predicate holds. \<^verbatim>\<open>case()\<close> of no branch at all compiles to
  \<^verbatim>\<open>CASE END\<close>, which PostgreSQL rejects with a syntax error.
\<close>

fun case_whens :: "sql_row \<Rightarrow> (expr \<times> expr) list \<Rightarrow> error + expr option" where
  "case_whens row [] = Inr None"
| "case_whens row ((p, v) # whens) =
     (case holds row p of
        None \<Rightarrow> Inl ProgrammingError
      | Some h \<Rightarrow> if h then Inr (Some v) else case_whens row whens)"

definition case_value :: "sql_row \<Rightarrow> (expr \<times> expr) list \<Rightarrow> error + expr option" where
  "case_value row whens = (if whens = [] then Inl ProgrammingError else case_whens row whens)"

text \<open>The selected expression that defines the column \<open>n\<close> of a statement.\<close>

definition column_def :: "select \<Rightarrow> string \<Rightarrow> expr option" where
  "column_def s n = find (\<lambda>e. expr_name e = Some n) (selected s)"

text \<open>The value expression of the key \<open>k\<close> among the arguments of \<^verbatim>\<open>json_build_object\<close>.\<close>

fun json_object_field :: "string \<Rightarrow> expr list \<Rightarrow> expr option" where
  "json_object_field k (LiteralStr k' # v # kvs) =
     (if k' = k then Some v else json_object_field k kvs)"
| "json_object_field k _ = None"

text \<open>
  The expression under the key \<^verbatim>\<open>group_id\<close> of the group metadata column of a statement
  (the last selected expression of that label: the builders put it after the columns of
  the table), and its value for a row when that expression is a column of an intermediate
  result defined by a \<^verbatim>\<open>CASE\<close>, as in the percentile statement.
\<close>

definition group_id_expr_of :: "select \<Rightarrow> expr option" where
  "group_id_expr_of sel =
     (case find (\<lambda>e. expr_name e = Some MATHESAR_GROUP_METADATA) (rev (selected sel)) of
        Some (Label (FuncCall f args) _) \<Rightarrow>
          if f = ''json_build_object''
          then json_object_field (GroupMetadataField_value GROUP_ID) args
          else None
      | _ \<Rightarrow> None)"

definition group_id_value :: "select \<Rightarrow> sql_row \<Rightarrow> error + expr option" where
  "group_id_value sel row =
     (case group_id_expr_of sel of
        Some (CteCol s n) \<Rightarrow>
          (case column_def s n of
             Some (Label (Case whens) _) \<Rightarrow> case_value row whens
           | _ \<Rightarrow> Inl ProgrammingError)
      | _ \<Rightarrow> Inl ProgrammingError)"

section \<open>Fetched rows and their group metadata\<close>

subsection \<open>Python values of fetched rows\<close>

text \<open>
  The records handed to \<^verbatim>\<open>extract_group_metadata\<close> are dictionaries of JSON-like values:
  \<^verbatim>\<open>None\<close>, booleans, integers, strings, lists and dictionaries with string keys. A
  dictionary is the list of its items in insertion order; a Python dictionary never holds
  a key twice (\<open>wf_pyval\<close>). Floats are not part of the model. A character of a string is
  a code point below 256.
\<close>

datatype pyval =
    PNone
  | PBool bool
  | PInt int
  | PStr string
  | PList "pyval list"
  | PDict "(string \<times> pyval) list"

type_synonym dict = "(string \<times> pyval) list"

fun wf_pyval :: "pyval \<Rightarrow> bool"
  and wf_items :: "pyval list \<Rightarrow> bool"
  and wf_members :: "dict \<Rightarrow> bool" where
  "wf_pyval PNone = True"
| "wf_pyval (PBool _) = True"
| "wf_pyval (PInt _) = True"
| "wf_pyval (PStr _) = True"
| "wf_pyval (PList xs) = wf_items xs"
| "wf_pyval (PDict kvs) = (distinct (map fst kvs) \<and> wf_members kvs)"
| "wf_items [] = True"
| "wf_items (x # xs) = (wf_pyval x \<and> wf_items xs)"
| "wf_members [] = True"
| "wf_members ((k, v) # kvs) = (wf_pyval v \<and> wf_members kvs)"

text \<open>\<^verbatim>\<open>d.get(k, default)\<close>, \<^verbatim>\<open>d | {k: v}\<close> and \<^verbatim>\<open>dict(pairs)\<close> on such dictionaries.\<close>

definition dict_get :: "dict \<Rightarrow> string \<Rightarrow> pyval \<Rightarrow> pyval" where
  "dict_get d k dflt = (case map_of d k of None \<Rightarrow> dflt | Some v \<Rightarrow> v)"

definition dict_set :: "dict \<Rightarrow> string \<Rightarrow> pyval \<Rightarrow> dict" where
  "dict_set d k v = AList.update k v d"

definition dict_of_pairs :: "(string \<times> pyval) list \<Rightarrow> dict" where
  "dict_of_pairs kvs = foldl (\<lambda>d (k, v). dict_set d k v) [] kvs"

subsection \<open>\<^verbatim>\<open>json.dumps\<close>\<close>

text \<open>
  The encoder with its default settings: items separated by \<^verbatim>\<open>", "\<close>, a key and its value
  by \<^verbatim>\<open>": "\<close>, the keys of a dictionary in insertion order (\<^verbatim>\<open>sort_keys\<close> is off), and
  \<^verbatim>\<open>ensure_ascii\<close> on: inside a string the quote, the backslash and every character outside
  the printable ASCII range are escaped.
\<close>

definition digit_char :: "nat \<Rightarrow> char" where
  "digit_char d = char_of (48 + d)"

fun show_nat :: "nat \<Rightarrow> string" where
  "show_nat n = (if n < 10 then [digit_char n] else show_nat (n div 10) @ [digit_char (n mod 10)])"

declare show_nat.simps [simp del]

definition show_int :: "int \<Rightarrow> string" where
  "show_int i = (if i < 0 then CHR ''-'' # show_nat (nat (- i)) else show_nat (nat i))"

definition hex_char :: "nat \<Rightarrow> char" where
  "hex_char d = (if d < 10 then char_of (48 + d) else char_of (87 + d))"

definition escape_char :: "char \<Rightarrow> string" where
  "escape_char c =
     (if c = CHR 0x22 then [CHR 0x5C, CHR 0x22]
      else if c = CHR 0x5C then [CHR 0x5C, CHR 0x5C]
      else if c = CHR 0x0A then [CHR 0x5C, CHR ''n'']
      else if c = CHR 0x0D then [CHR 0x5C, CHR ''r'']
      else if c = CHR 0x09 then [CHR 0x5C, CHR ''t'']
      else if c = CHR 0x08 then [CHR 0x5C, CHR ''b'']
      else if c = CHR 0x0C then [CHR 0x5C, CHR ''f'']
      else if of_char c < (0x20 :: nat) \<or> (0x7E :: nat) < of_char c then
        [CHR 0x5C, CHR ''u'', CHR ''0'', CHR ''0'',
         hex_char (of_char c div 16), hex_char (of_char c mod 16)]
      else [c])"

definition encode_str :: "string \<Rightarrow> string" where
  "encode_str s = CHR 0x22 # concat (map escape_char s) @ [CHR 0x22]"

fun json_dumps :: "pyval \<Rightarrow> string"
  and dumps_items :: "pyval list \<Rightarrow> string"
  and dumps_members :: "dict \<Rightarrow> string" where
  "json_dumps PNone = ''null''"
| "json_dumps (PBool b) = (if b then ''true'' else ''false'')"
| "json_dumps (PInt i) = show_int i"
| "json_dumps (PStr s) = encode_str s"
| "json_dumps (PList xs) = ''['' @ dumps_items xs @ '']''"
| "json_dumps (PDict kvs) = ''{'' @ dumps_members kvs @ ''}''"
| "dumps_items [] = []"
| "dumps_items [x] = json_dumps x"
| "dumps_items (x # y # ys) = json_dumps x @ '', '' @ dumps_items (y # ys)"
| "dumps_members [] = []"
| "dumps_members [(k, v)] = encode_str k @ '': '' @ json_dumps v"
| "dumps_members ((k, v) # kv # kvs) =
     encode_str k @ '': '' @ json_dumps v @ '', '' @ dumps_members (kv # kvs)"

subsection \<open>\<^verbatim>\<open>json.loads\<close>\<close>

text \<open>
  The module applies \<^verbatim>\<open>json.loads\<close> only to strings that \<^verbatim>\<open>json.dumps\<close> has produced, so
  the decoder is modelled on that language: the literals, integers, strings with their
  escapes, and lists and objects with the separators \<^verbatim>\<open>", "\<close> and \<^verbatim>\<open>": "\<close>. As the
  scanner of the library does, a value is recognised by its first character. An object is
  built as \<^verbatim>\<open>dict(pairs)\<close>. Any other input is a \<^verbatim>\<open>JSONDecodeError\<close>. The first argument of
  the parsing functions bounds the nesting and the number of items; \<open>json_loads\<close>
  supplies the length of the input, which always suffices (\<open>json_loads_dumps\<close> below).
\<close>

definition hex_val :: "char \<Rightarrow> nat option" where
  "hex_val c =
     (let n = of_char c :: nat in
      if 48 \<le> n \<and> n \<le> 57 then Some (n - 48)
      else if 97 \<le> n \<and> n \<le> 102 then Some (n - 87)
      else if 65 \<le> n \<and> n \<le> 70 then Some (n - 55)
      else None)"

definition unescape :: "char \<Rightarrow> char option" where
  "unescape e =
     (if e = CHR 0x22 then Some (CHR 0x22)
      else if e = CHR 0x5C then Some (CHR 0x5C)
      else if e = CHR ''/'' then Some (CHR ''/'')
      else if e = CHR ''b'' then Some (CHR 0x08)
      else if e = CHR ''f'' then Some (CHR 0x0C)
      else if e = CHR ''n'' then Some (CHR 0x0A)
      else if e = CHR ''r'' then Some (CHR 0x0D)
      else if e = CHR ''t'' then Some (CHR 0x09)
      else None)"

definition unicode_escape :: "string \<Rightarrow> char option" where
  "unicode_escape hs =
     (case map hex_val hs of
        [Some a, Some b, Some c, Some d] \<Rightarrow>
          if ((a * 16 + b) * 16 + c) * 16 + d < 256
          then Some (char_of (((a * 16 + b) * 16 + c) * 16 + d))
          else None
      | _ \<Rightarrow> None)"

text \<open>The body of a string, after its opening quote: the text and what follows the closing quote.\<close>

fun scanstring :: "string \<Rightarrow> (string \<times> string) option" where
  "scanstring [] = None"
| "scanstring (c # cs) =
     (if c = CHR 0x22 then Some ([], cs)
      else if c = CHR 0x5C then
        (case cs of
           [] \<Rightarrow> None
         | e # r \<Rightarrow>
             if e = CHR ''u'' then
               (case unicode_escape (take 4 r) of
                  None \<Rightarrow> None
                | Some x \<Rightarrow> map_option (\<lambda>(s, t). (x # s, t)) (scanstring (drop 4 r)))
             else
               (case unescape e of
                  None \<Rightarrow> None
                | Some x \<Rightarrow> map_option (\<lambda>(s, t). (x # s, t)) (scanstring r)))
      else if of_char c < (0x20 :: nat) then None
      else map_option (\<lambda>(s, t). (c # s, t)) (scanstring cs))"

definition is_digit :: "char \<Rightarrow> bool" where
  "is_digit c = (48 \<le> (of_char c :: nat) \<and> (of_char c :: nat) \<le> 57)"

definition read_nat :: "string \<Rightarrow> nat" where
  "read_nat ds = foldl (\<lambda>a d. 10 * a + (of_char d - 48)) 0 ds"

text \<open>
  An integer: an optional sign and digits, without a leading zero before further digits; a
  fraction or an exponent would make a float.
\<close>

definition scan_nat :: "string \<Rightarrow> (nat \<times> string) option" where
  "scan_nat s =
     (let ds = takeWhile is_digit s; rest = dropWhile is_digit s
      in if ds = [] then None
         else if 1 < length ds \<and> hd ds = CHR ''0'' then None
         else if rest \<noteq> [] \<and> hd rest \<in> {CHR ''.'', CHR ''e'', CHR ''E''} then None
         else Some (read_nat ds, rest))"

text \<open>
  What may follow a value in the output of the encoder: nothing, a comma or a closing
  bracket.
\<close>

definition delimited :: "string \<Rightarrow> bool" where
  "delimited r = (r = [] \<or> hd r = CHR '','' \<or> hd r = CHR '']'' \<or> hd r = CHR ''}'')"

definition scan_int :: "string \<Rightarrow> (int \<times> string) option" where
  "scan_int s =
     (case s of
        [] \<Rightarrow> None
      | c # r \<Rightarrow>
          if c = CHR ''-'' then map_option (\<lambda>(n, t). (- int n, t)) (scan_nat r)
          else map_option (\<lambda>(n, t). (int n, t)) (scan_nat s))"

fun parse_value :: "nat \<Rightarrow> string \<Rightarrow> (pyval \<times> string) option"
  and parse_items :: "nat \<Rightarrow> string \<Rightarrow> (pyval list \<times> string) option"
  and parse_members :: "nat \<Rightarrow> string \<Rightarrow> ((string \<times> pyval) list \<times> string) option" where
  "parse_value 0 s = None"
| "parse_value (Suc n) s =
     (case s of
        [] \<Rightarrow> None
      | c # r \<Rightarrow>
          if c = CHR 0x22 then map_option (\<lambda>(x, t). (PStr x, t)) (scanstring r)
          else if c = CHR ''{'' then
            (if take 1 r = ''}'' then Some (PDict [], drop 1 r)
             else map_option (\<lambda>(kvs, t). (PDict (dict_of_pairs kvs), t)) (parse_members n r))
          else if c = CHR ''['' then
            (if take 1 r = '']'' then Some (PList [], drop 1 r)
             else map_option (\<lambda>(xs, t). (PList xs, t)) (parse_items n r))
          else if c = CHR ''n'' \<and> take 3 r = ''ull'' then Some (PNone, drop 3 r)
          else if c = CHR ''t'' \<and> take 3 r = ''rue'' then Some (PBool True, drop 3 r)
          else if c = CHR ''f'' \<and> take 4 r = ''alse'' then Some (PBool False, drop 4 r)
          else map_option (\<lambda>(i, t). (PInt i, t)) (scan_int s))"
| "parse_items 0 s = None"
| "parse_items (Suc n) s =
     (case parse_value n s of
        None \<Rightarrow> None
      | Some (x, r) \<Rightarrow>
          if take 1 r = '']'' then Some ([x], drop 1 r)
          else if take 2 r = '', '' then
            map_option (\<lambda>(xs, t). (x # xs, t)) (parse_items n (drop 2 r))
          else None)"
| "parse_members 0 s = None"
| "parse_members (Suc n) s =
     (if take 1 s \<noteq> [CHR 0x22] then None
      else
        (case scanstring (drop 1 s) of
           None \<Rightarrow> None
         | Some (k, r1) \<Rightarrow>
             if take 2 r1 \<noteq> '': '' then None
             else
               (case parse_value n (drop 2 r1) of
                  None \<Rightarrow> None
                | Some (v, r2) \<Rightarrow>
                    if take 1 r2 = ''}'' then Some ([(k, v)], drop 1 r2)
                    else if take 2 r2 = '', '' then
                      map_option (\<lambda>(kvs, t). ((k, v) # kvs, t)) (parse_members n (drop 2 r2))
                    else None)))"

definition json_loads :: "string \<Rightarrow> error + pyval" where
  "json_loads s =
     (case parse_value (length s) s of
        Some (v, []) \<Rightarrow> Inr v
      | _ \<Rightarrow> Inl JSONDecodeError)"


subsection \<open>\<^verbatim>\<open>extract_group_metadata\<close>\<close>

text \<open>
  The inner function \<^verbatim>\<open>_get_record_pieces\<close>, with the two keys of the enclosing call as
  arguments. \<^verbatim>\<open>record[data_key]\<close> raises \<^verbatim>\<open>KeyError\<close> when the key is missing, \<^verbatim>\<open>.items()\<close>
  and \<^verbatim>\<open>.get\<close> raise \<^verbatim>\<open>AttributeError\<close> on a value that is not a dictionary, and
  \<^verbatim>\<open>x | {...}\<close> raises \<^verbatim>\<open>TypeError\<close> when \<open>x\<close> is not a dictionary. The result is the
  rewritten record \<^verbatim>\<open>{data_key: data, metadata_key: metadata}\<close> and the group metadata,
  \<^verbatim>\<open>None\<close> when it is empty.
\<close>

definition get_record_pieces :: "string \<Rightarrow> string \<Rightarrow> dict \<Rightarrow> error + (dict \<times> pyval)" where
  "get_record_pieces data_key metadata_key record =
     (case map_of record data_key of
        None \<Rightarrow> Inl KeyError
      | Some (PDict d) \<Rightarrow>
          (let data = filter (\<lambda>(k, v). k \<noteq> MATHESAR_GROUP_METADATA) d;
               group_metadata = dict_get d MATHESAR_GROUP_METADATA (PDict [])
           in case group_metadata of
                PDict gm \<Rightarrow>
                  (case dict_get record metadata_key (PDict []) of
                     PDict md \<Rightarrow>
                       Inr (dict_set [(data_key, PDict data)] metadata_key
                              (PDict
                                 (dict_set md (GroupMetadataField_value GROUP_ID)
                                    (dict_get gm (GroupMetadataField_value GROUP_ID) PNone))),
                            if gm \<noteq> [] then PDict gm else PNone)
                   | _ \<Rightarrow> Inl TypeError)
              | _ \<Rightarrow> Inl AttributeError)
      | Some _ \<Rightarrow> Inl AttributeError)"

text \<open>
  A comprehension or generator whose body may raise: the elements are computed in order
  and the first exception ends the whole. The module has three: the generator
  \<^verbatim>\<open>(_get_record_pieces(record) for record in record_dictionaries)\<close>, run to its end by
  the call of \<^verbatim>\<open>zip\<close>, the list \<^verbatim>\<open>[json.loads(blob) for blob in ...]\<close>, and the keys
  that \<^verbatim>\<open>sorted\<close> computes for its elements.
\<close>

fun map_raising :: "('a \<Rightarrow> error + 'b) \<Rightarrow> 'a list \<Rightarrow> error + 'b list" where
  "map_raising f [] = Inr []"
| "map_raising f (x # xs) =
     (case f x of
        Inl e \<Rightarrow> Inl e
      | Inr y \<Rightarrow>
          (case map_raising f xs of
             Inl e \<Rightarrow> Inl e
           | Inr ys \<Rightarrow> Inr (y # ys)))"

text \<open>
  The sort key \<^verbatim>\<open>lambda x: x['group_id']\<close>: \<^verbatim>\<open>KeyError\<close> on a dictionary without the key,
  \<^verbatim>\<open>TypeError\<close> on \<^verbatim>\<open>None\<close> and on every other value (none of them can be subscripted with
  a string). \<^verbatim>\<open>sorted\<close> computes the key of every element, in order, before it compares
  anything, also for a list of one element.
\<close>

fun group_id_key :: "pyval \<Rightarrow> error + pyval" where
  "group_id_key (PDict d) =
     (case map_of d (GroupMetadataField_value GROUP_ID) of
        None \<Rightarrow> Inl KeyError
      | Some v \<Rightarrow> Inr v)"
| "group_id_key _ = Inl TypeError"

text \<open>
  The comparisons of \<^verbatim>\<open>sorted\<close>. Integers and booleans compare as numbers, strings by
  code points; \<^verbatim>\<open>None\<close>, dictionaries and values of different kinds do not compare
  (\<^verbatim>\<open>TypeError\<close>). With fewer than two elements nothing is compared. The sort is stable.
  Keys that are all lists would be compared element by element; that case is outside the
  model, which answers \<^verbatim>\<open>TypeError\<close> there, and no statement below relies on it.
\<close>

fun int_key :: "pyval \<Rightarrow> int option" where
  "int_key (PInt i) = Some i"
| "int_key (PBool b) = Some (if b then 1 else 0)"
| "int_key _ = None"

fun str_key :: "pyval \<Rightarrow> string option" where
  "str_key (PStr s) = Some s"
| "str_key _ = None"

definition int_of_key :: "pyval \<Rightarrow> int" where
  "int_of_key k = (case int_key k of Some i \<Rightarrow> i | None \<Rightarrow> 0)"

definition str_of_key :: "pyval \<Rightarrow> string" where
  "str_of_key k = (case str_key k of Some s \<Rightarrow> s | None \<Rightarrow> [])"

text \<open>\<open>py_le a b\<close>: Python evaluates \<^verbatim>\<open>a <= b\<close> to \<^verbatim>\<open>True\<close>, for keys of the kinds above.\<close>

definition py_le :: "pyval \<Rightarrow> pyval \<Rightarrow> bool" where
  "py_le a b =
     (case (int_key a, int_key b) of
        (Some i, Some j) \<Rightarrow> i \<le> j
      | _ \<Rightarrow>
          (case (str_key a, str_key b) of
             (Some s, Some t) \<Rightarrow> s \<le> t
           | _ \<Rightarrow> False))"

text \<open>The \<^verbatim>\<open>group_id\<close> of a group-table entry (\<^verbatim>\<open>None\<close> where \<open>group_id_key\<close> raises).\<close>

definition group_id_of :: "pyval \<Rightarrow> pyval" where
  "group_id_of g = (case group_id_key g of Inl _ \<Rightarrow> PNone | Inr k \<Rightarrow> k)"

definition py_sorted :: "(pyval \<times> pyval) list \<Rightarrow> error + pyval list" where
  "py_sorted keyed =
     (if length keyed \<le> 1 then Inr (map snd keyed)
      else if list_all (\<lambda>(k, x). int_key k \<noteq> None) keyed then
        Inr (map snd (sort_key (\<lambda>(k, x). int_of_key k) keyed))
      else if list_all (\<lambda>(k, x). str_key k \<noteq> None) keyed then
        Inr (map snd (sort_key (\<lambda>(k, x). str_of_key k) keyed))
      else Inl TypeError)"

text \<open>
  The order in which a Python \<^verbatim>\<open>set\<close> of strings is iterated depends on the hashes of the
  strings and is not fixed by the language. It is a parameter \<open>set_order\<close> of the model:
  a function from the list the set is built from to the list of its distinct elements in
  iteration order (\<open>set_iteration\<close>). \<^verbatim>\<open>zip(*pieces)\<close> unpacked into two names raises
  \<^verbatim>\<open>ValueError\<close> when there are no pieces.
\<close>

definition set_iteration :: "(string list \<Rightarrow> string list) \<Rightarrow> bool" where
  "set_iteration set_order = (\<forall>xs. distinct (set_order xs) \<and> set (set_order xs) = set xs)"

definition extract_group_metadata ::
  "(string list \<Rightarrow> string list) \<Rightarrow> dict list \<Rightarrow> string \<Rightarrow> string
     \<Rightarrow> error + (dict list \<times> pyval list)" where
  "extract_group_metadata set_order record_dictionaries data_key metadata_key =
     (case map_raising (get_record_pieces data_key metadata_key) record_dictionaries of
        Inl e \<Rightarrow> Inl e
      | Inr pieces \<Rightarrow>
          if pieces = [] then Inl ValueError
          else
            (let record_tup = map fst pieces;
                 group_tup = map snd pieces;
                 blobs = set_order (map json_dumps group_tup)
             in case map_raising json_loads blobs of
                  Inl e \<Rightarrow> Inl e
                | Inr groups \<Rightarrow>
                    (case map_raising group_id_key groups of
                       Inl e \<Rightarrow> Inl e
                     | Inr keys \<Rightarrow>
                         (case py_sorted (zip keys groups) of
                            Inl e \<Rightarrow> Inl e
                          | Inr reduced_groups \<Rightarrow> Inr (record_tup, reduced_groups)))))"


section \<open>Properties of validation, resolution and dispatch\<close>

subsection \<open>Validation\<close>

lemma validate_columns_Inr:
  "validate_columns cols = Inr u \<longleftrightarrow> (\<forall>c\<in>set cols. is_str_or_Column c)"
  by (induction cols) auto

lemma validate_columns_Inl:
  "validate_columns cols = Inl e \<Longrightarrow>
     \<exists>c\<in>set cols. \<not> is_str_or_Column c \<and> e = BadGroupFormat (ColumnNotStrOrColumn c)"
  by (induction cols) (auto split: if_splits)

lemma mode_values: "GroupMode_value ` set GroupMode_members = {''distinct'', ''percentile''}"
  by (simp add: GroupMode_members_def)

lemma validate_Inr_iff:
  "validate g = Inr u \<longleftrightarrow>
     is_tuple_or_list (column_list g)
     \<and> (group_mode g = ''distinct'' \<or> group_mode g = ''percentile'' \<and> is_int (num_groups g))
     \<and> (\<forall>c\<in>set (elements (column_list g)). is_str_or_Column c)"
  by (auto simp: validate_def mode_values validate_columns_Inr)

lemma validate_never_unknown: "validate g \<noteq> Inl (BadGroupFormat UnknownError)"
  by (auto simp: validate_def dest: validate_columns_Inl)

text \<open>
  Claim C5. \<^verbatim>\<open>validate\<close> raises exactly as specified, its checks taken in their order:
  \<^verbatim>\<open>BadGroupFormat\<close> when \<^verbatim>\<open>column_list\<close> is neither a list nor a tuple; otherwise
  \<^verbatim>\<open>InvalidGroupType\<close> when \<^verbatim>\<open>group_mode\<close> is neither \<^verbatim>\<open>'distinct'\<close> nor \<^verbatim>\<open>'percentile'\<close>;
  otherwise \<^verbatim>\<open>BadGroupFormat\<close> when the mode is \<^verbatim>\<open>'percentile'\<close> and \<^verbatim>\<open>num_groups\<close> is not
  exactly an \<^verbatim>\<open>int\<close>; otherwise \<^verbatim>\<open>BadGroupFormat\<close>, naming an offending element, when some
  element of \<^verbatim>\<open>column_list\<close> is neither a \<^verbatim>\<open>str\<close> nor a \<^verbatim>\<open>Column\<close>; and it succeeds in
  every remaining case. A float \<^verbatim>\<open>num_groups\<close> fails in percentile mode whatever its
  value \<open>q\<close>, a whole one included.
\<close>

theorem validate_raises_as_specified:
  "(\<not> is_tuple_or_list (column_list g) \<longrightarrow>
      validate g = Inl (BadGroupFormat ColumnListNotSequence))
   \<and> (is_tuple_or_list (column_list g) \<and> group_mode g \<noteq> ''distinct''
        \<and> group_mode g \<noteq> ''percentile'' \<longrightarrow>
      validate g = Inl (InvalidGroupType (group_mode g)))
   \<and> (is_tuple_or_list (column_list g) \<and> group_mode g = ''percentile''
        \<and> \<not> is_int (num_groups g) \<longrightarrow>
      validate g = Inl (BadGroupFormat NumGroupsNotInteger))
   \<and> (is_tuple_or_list (column_list g)
        \<and> (group_mode g = ''distinct'' \<or> group_mode g = ''percentile'' \<and> is_int (num_groups g))
        \<and> (\<exists>c\<in>set (elements (column_list g)). \<not> is_str_or_Column c) \<longrightarrow>
      (\<exists>c\<in>set (elements (column_list g)). \<not> is_str_or_Column c
         \<and> validate g = Inl (BadGroupFormat (ColumnNotStrOrColumn c))))
   \<and> (is_tuple_or_list (column_list g)
        \<and> (group_mode g = ''distinct'' \<or> group_mode g = ''percentile'' \<and> is_int (num_groups g))
        \<and> (\<forall>c\<in>set (elements (column_list g)). is_str_or_Column c) \<longrightarrow>
      validate g = Inr ())
   \<and> validate \<lparr>column_list = ListObj [StrObj ''a''], group_mode = ''percentile'',
                 num_groups = FloatObj q\<rparr> = Inl (BadGroupFormat NumGroupsNotInteger)"
proof (intro conjI impI)
  assume "\<not> is_tuple_or_list (column_list g)"
  then show "validate g = Inl (BadGroupFormat ColumnListNotSequence)"
    by (simp add: validate_def)
next
  assume "is_tuple_or_list (column_list g) \<and> group_mode g \<noteq> ''distinct''
        \<and> group_mode g \<noteq> ''percentile''"
  then show "validate g = Inl (InvalidGroupType (group_mode g))"
    by (simp add: validate_def mode_values)
next
  assume "is_tuple_or_list (column_list g) \<and> group_mode g = ''percentile''
        \<and> \<not> is_int (num_groups g)"
  then show "validate g = Inl (BadGroupFormat NumGroupsNotInteger)"
    by (simp add: validate_def mode_values)
next
  assume a: "is_tuple_or_list (column_list g)
        \<and> (group_mode g = ''distinct'' \<or> group_mode g = ''percentile'' \<and> is_int (num_groups g))
        \<and> (\<exists>c\<in>set (elements (column_list g)). \<not> is_str_or_Column c)"
  then have v: "validate g = validate_columns (elements (column_list g))"
    by (auto simp: validate_def mode_values)
  from a have "\<forall>u. validate_columns (elements (column_list g)) \<noteq> Inr u"
    by (simp add: validate_columns_Inr)
  then obtain e where "validate_columns (elements (column_list g)) = Inl e"
    by (cases "validate_columns (elements (column_list g))") auto
  with validate_columns_Inl [OF this] v
  show "\<exists>c\<in>set (elements (column_list g)). \<not> is_str_or_Column c
         \<and> validate g = Inl (BadGroupFormat (ColumnNotStrOrColumn c))"
    by auto
next
  assume a: "is_tuple_or_list (column_list g)
        \<and> (group_mode g = ''distinct'' \<or> group_mode g = ''percentile'' \<and> is_int (num_groups g))
        \<and> (\<forall>c\<in>set (elements (column_list g)). is_str_or_Column c)"
  then show "validate g = Inr ()"
    by (simp add: validate_Inr_iff)
next
  show "validate \<lparr>column_list = ListObj [StrObj ''a''], group_mode = ''percentile'',
                 num_groups = FloatObj q\<rparr> = Inl (BadGroupFormat NumGroupsNotInteger)"
    by (simp add: validate_def mode_values)
qed

theorem validate_raises_as_specified_witness:
  "validate \<lparr>column_list = StrObj ''a'', group_mode = ''distinct'', num_groups = IntObj 12\<rparr>
     = Inl (BadGroupFormat ColumnListNotSequence)
   \<and> validate \<lparr>column_list = ListObj [StrObj ''a''], group_mode = ''median'',
                 num_groups = IntObj 12\<rparr>
     = Inl (InvalidGroupType ''median'')
   \<and> validate \<lparr>column_list = ListObj [StrObj ''a''], group_mode = ''percentile'',
                 num_groups = BoolObj True\<rparr>
     = Inl (BadGroupFormat NumGroupsNotInteger)
   \<and> validate \<lparr>column_list = TupleObj [StrObj ''a'', IntObj 3], group_mode = ''distinct'',
                 num_groups = IntObj 12\<rparr>
     = Inl (BadGroupFormat (ColumnNotStrOrColumn (IntObj 3)))
   \<and> validate \<lparr>column_list = ListObj [StrObj ''a'', ColumnObj (Column ''t'' ''b'')],
                 group_mode = ''percentile'', num_groups = IntObj 4\<rparr>
     = Inr ()
   \<and> validate \<lparr>column_list = ListObj [StrObj ''a''], group_mode = ''percentile'',
                 num_groups = FloatObj 3\<rparr>
     = Inl (BadGroupFormat NumGroupsNotInteger)"
  using
    validate_raises_as_specified
      [of "\<lparr>column_list = StrObj ''a'', group_mode = ''distinct'', num_groups = IntObj 12\<rparr>" 3]
    validate_raises_as_specified
      [of "\<lparr>column_list = ListObj [StrObj ''a''], group_mode = ''median'',
            num_groups = IntObj 12\<rparr>" 3]
    validate_raises_as_specified
      [of "\<lparr>column_list = ListObj [StrObj ''a''], group_mode = ''percentile'',
            num_groups = BoolObj True\<rparr>" 3]
    validate_raises_as_specified
      [of "\<lparr>column_list = TupleObj [StrObj ''a'', IntObj 3], group_mode = ''distinct'',
            num_groups = IntObj 12\<rparr>" 3]
    validate_raises_as_specified
      [of "\<lparr>column_list = ListObj [StrObj ''a'', ColumnObj (Column ''t'' ''b'')],
            group_mode = ''percentile'', num_groups = IntObj 4\<rparr>" 3]
  by simp

subsection \<open>Resolution against a table\<close>

lemma column_name_of_ok: "is_str_or_Column c \<Longrightarrow> \<exists>n. column_name_of c = Inr n"
  by (cases c) auto

lemma check_columns_found_Inr:
  "\<forall>c\<in>set cols. is_str_or_Column c \<Longrightarrow>
     check_columns_found t cols = Inr u \<longleftrightarrow>
       (\<forall>c\<in>set cols. \<forall>n. column_name_of c = Inr n \<longrightarrow> has_column t n)"
  by (induction cols) (auto split: sum.splits dest: column_name_of_ok)

lemma check_columns_found_Inl:
  "\<forall>c\<in>set cols. is_str_or_Column c \<Longrightarrow> check_columns_found t cols = Inl e \<Longrightarrow>
     \<exists>c\<in>set cols. \<exists>n. column_name_of c = Inr n \<and> \<not> has_column t n \<and> e = GroupFieldNotFound c"
  by (induction cols) (auto split: sum.splits if_splits dest: column_name_of_ok)

lemma check_columns_found_not_unknown:
  "check_columns_found t cols \<noteq> Inl (BadGroupFormat UnknownError)"
  by (induction cols) (auto split: sum.splits elim: column_name_of.elims)

lemma column_named_has:
  assumes "has_column t n"
  shows "\<exists>c. column_named t n = Inr c \<and> c \<in> set (columns t) \<and> col_name c = n"
proof -
  from assms obtain c where "c \<in> set (columns t)" "col_name c = n"
    by (auto simp: has_column_def)
  then have "find (\<lambda>c. col_name c = n) (columns t) \<noteq> None"
    by (auto simp: find_None_iff)
  then obtain c' where f: "find (\<lambda>c. col_name c = n) (columns t) = Some c'"
    by auto
  then have "c' \<in> set (columns t) \<and> col_name c' = n"
    by (auto simp: find_Some_iff)
  with f show ?thesis by (simp add: column_named_def)
qed

lemma create_col_objects_found:
  "check_columns_found t cols = Inr u \<Longrightarrow>
     \<exists>cs. create_col_objects t cols = Inr cs \<and> set cs \<subseteq> set (columns t)
        \<and> map column_name_of cols = map (\<lambda>c. Inr (col_name c)) cs"
proof (induction cols)
  case Nil
  then show ?case by simp
next
  case (Cons col cols)
  from Cons.prems obtain n where n: "column_name_of col = Inr n" "has_column t n"
    and rest: "check_columns_found t cols = Inr u"
    by (auto split: sum.splits if_splits)
  from column_named_has [OF n(2)] obtain c where
    c: "column_named t n = Inr c" "c \<in> set (columns t)" "col_name c = n" by blast
  from Cons.IH [OF rest] obtain cs where
    cs: "create_col_objects t cols = Inr cs" "set cs \<subseteq> set (columns t)"
        "map column_name_of cols = map (\<lambda>c. Inr (col_name c)) cs" by blast
  show ?case using n c cs by simp
qed

lemma create_col_objects_not_unknown:
  "create_col_objects t cols \<noteq> Inl (BadGroupFormat UnknownError)"
  by (induction cols)
     (auto simp: column_named_def split: sum.splits option.splits elim: column_name_of.elims)

text \<open>
  Claim C6. \<^verbatim>\<open>get_validated_group_by_columns\<close> runs \<^verbatim>\<open>validate\<close> first, so a validation
  error is the error of the resolution. After a successful validation, if the name of some
  reference (the string itself, or the \<^verbatim>\<open>name\<close> of the handle) is not a column of the
  table, \<^verbatim>\<open>GroupFieldNotFound\<close> is raised for such a reference; and if every name is
  present, the result is a list of columns of the table whose names are, position by
  position, the names of the references of \<^verbatim>\<open>column_list\<close>.
\<close>

theorem get_validated_group_by_columns_resolves:
  "(validate g = Inl e \<longrightarrow> get_validated_group_by_columns g t = Inl e)
   \<and> (validate g = Inr ()
        \<and> (\<exists>col\<in>set (elements (column_list g)).
              \<exists>n. column_name_of col = Inr n \<and> \<not> has_column t n) \<longrightarrow>
      (\<exists>col\<in>set (elements (column_list g)).
          \<exists>n. column_name_of col = Inr n \<and> \<not> has_column t n
            \<and> get_validated_group_by_columns g t = Inl (GroupFieldNotFound col)))
   \<and> (validate g = Inr ()
        \<and> (\<forall>col\<in>set (elements (column_list g)).
              \<forall>n. column_name_of col = Inr n \<longrightarrow> has_column t n) \<longrightarrow>
      (\<exists>cs. get_validated_group_by_columns g t = Inr cs
         \<and> set cs \<subseteq> set (columns t)
         \<and> map column_name_of (elements (column_list g)) = map (\<lambda>c. Inr (col_name c)) cs))"
proof (intro conjI impI)
  assume "validate g = Inl e"
  then show "get_validated_group_by_columns g t = Inl e"
    by (simp add: get_validated_group_by_columns_def)
next
  assume a: "validate g = Inr ()
        \<and> (\<exists>col\<in>set (elements (column_list g)).
              \<exists>n. column_name_of col = Inr n \<and> \<not> has_column t n)"
  then have ok: "\<forall>c\<in>set (elements (column_list g)). is_str_or_Column c"
    by (simp add: validate_Inr_iff)
  from a have "\<forall>u. check_columns_found t (elements (column_list g)) \<noteq> Inr u"
    using check_columns_found_Inr [OF ok] by blast
  then obtain e' where e': "check_columns_found t (elements (column_list g)) = Inl e'"
    by (cases "check_columns_found t (elements (column_list g))") auto
  from check_columns_found_Inl [OF ok e'] a e'
  show "\<exists>col\<in>set (elements (column_list g)).
          \<exists>n. column_name_of col = Inr n \<and> \<not> has_column t n
            \<and> get_validated_group_by_columns g t = Inl (GroupFieldNotFound col)"
    by (auto simp: get_validated_group_by_columns_def)
next
  assume a: "validate g = Inr ()
        \<and> (\<forall>col\<in>set (elements (column_list g)).
              \<forall>n. column_name_of col = Inr n \<longrightarrow> has_column t n)"
  then have ok: "\<forall>c\<in>set (elements (column_list g)). is_str_or_Column c"
    by (simp add: validate_Inr_iff)
  from a have f: "check_columns_found t (elements (column_list g)) = Inr ()"
    using check_columns_found_Inr [OF ok] by blast
  from create_col_objects_found [OF f] a f
  show "\<exists>cs. get_validated_group_by_columns g t = Inr cs
         \<and> set cs \<subseteq> set (columns t)
         \<and> map column_name_of (elements (column_list g)) = map (\<lambda>c. Inr (col_name c)) cs"
    by (auto simp: get_validated_group_by_columns_def)
qed

theorem get_validated_group_by_columns_resolves_witness:
  "get_validated_group_by_columns
      \<lparr>column_list = StrObj ''a'', group_mode = ''distinct'', num_groups = IntObj 12\<rparr>
      \<lparr>table_name = ''t'', columns = [Column ''t'' ''a'', Column ''t'' ''b'']\<rparr>
     = Inl (BadGroupFormat ColumnListNotSequence)
   \<and> get_validated_group_by_columns
      \<lparr>column_list = ListObj [StrObj ''a'', StrObj ''zz''], group_mode = ''distinct'',
        num_groups = IntObj 12\<rparr>
      \<lparr>table_name = ''t'', columns = [Column ''t'' ''a'', Column ''t'' ''b'']\<rparr>
     = Inl (GroupFieldNotFound (StrObj ''zz''))
   \<and> (\<exists>cs. get_validated_group_by_columns
      \<lparr>column_list = ListObj [StrObj ''b'', ColumnObj (Column ''u'' ''a'')],
        group_mode = ''distinct'', num_groups = IntObj 12\<rparr>
      \<lparr>table_name = ''t'', columns = [Column ''t'' ''a'', Column ''t'' ''b'']\<rparr> = Inr cs
      \<and> set cs \<subseteq> {Column ''t'' ''a'', Column ''t'' ''b''}
      \<and> map col_name cs = [''b'', ''a''])"
proof -
  let ?t = "\<lparr>table_name = ''t'', columns = [Column ''t'' ''a'', Column ''t'' ''b'']\<rparr>"
  let ?g1 = "\<lparr>column_list = StrObj ''a'', group_mode = ''distinct'', num_groups = IntObj 12\<rparr>"
  let ?g2 = "\<lparr>column_list = ListObj [StrObj ''a'', StrObj ''zz''], group_mode = ''distinct'',
        num_groups = IntObj 12\<rparr>"
  let ?g3 = "\<lparr>column_list = ListObj [StrObj ''b'', ColumnObj (Column ''u'' ''a'')],
        group_mode = ''distinct'', num_groups = IntObj 12\<rparr>"
  have v1: "validate ?g1 = Inl (BadGroupFormat ColumnListNotSequence)"
    by (simp add: validate_def)
  have v2: "validate ?g2 = Inr ()" and v3: "validate ?g3 = Inr ()"
    by (simp_all add: validate_def mode_values)
  from get_validated_group_by_columns_resolves [of ?g1 _ ?t] v1
  have r1: "get_validated_group_by_columns ?g1 ?t = Inl (BadGroupFormat ColumnListNotSequence)"
    by blast
  from get_validated_group_by_columns_resolves [of ?g2 _ ?t] v2
  have r2: "get_validated_group_by_columns ?g2 ?t = Inl (GroupFieldNotFound (StrObj ''zz''))"
    by (simp add: has_column_def)
  from get_validated_group_by_columns_resolves [of ?g3 _ ?t] v3
  have "\<exists>cs. get_validated_group_by_columns ?g3 ?t = Inr cs
      \<and> set cs \<subseteq> {Column ''t'' ''a'', Column ''t'' ''b''}
      \<and> [Inr ''b'', Inr ''a''] = map (\<lambda>c. Inr (col_name c) :: error + string) cs"
    by (simp add: has_column_def)
  then have r3: "\<exists>cs. get_validated_group_by_columns ?g3 ?t = Inr cs
      \<and> set cs \<subseteq> {Column ''t'' ''a'', Column ''t'' ''b''}
      \<and> map col_name cs = [''b'', ''a'']"
    by (auto simp: Cons_eq_map_conv)
  from r1 r2 r3 show ?thesis by (intro conjI)
qed

subsection \<open>Dispatch on the mode\<close>

lemma get_validated_Inr_validate:
  "get_validated_group_by_columns g t = Inr cs \<Longrightarrow> validate g = Inr ()"
  by (auto simp: get_validated_group_by_columns_def split: sum.splits)

lemma get_validated_not_unknown:
  "get_validated_group_by_columns g t \<noteq> Inl (BadGroupFormat UnknownError)"
  using validate_never_unknown [of g] check_columns_found_not_unknown
    create_col_objects_not_unknown
  by (auto simp: get_validated_group_by_columns_def split: sum.splits)

lemma percentile_select_not_unknown:
  "get_percentile_range_group_select t cols n \<noteq> Inl (BadGroupFormat UnknownError)"
  by (simp add: get_percentile_range_group_select_def Let_def)

text \<open>
  Claim C8. An error of the resolution is the error of
  \<^verbatim>\<open>get_group_augmented_records_query\<close>. After a successful resolution the mode is one of
  the two mode strings; \<^verbatim>\<open>'percentile'\<close> selects the percentile builder, called with the
  table, the resolved columns and the integer \<^verbatim>\<open>num_groups\<close> (its statement, or its
  exception, is the outcome); \<^verbatim>\<open>'distinct'\<close> selects the distinct builder, called with the
  table and the resolved columns. The \<^verbatim>\<open>else\<close> branch is
  never taken: \<^verbatim>\<open>BadGroupFormat("Unknown error")\<close> is not a result of the function.
\<close>

theorem query_dispatch:
  "(get_validated_group_by_columns g t = Inl e \<longrightarrow>
      get_group_augmented_records_query t g = Inl e)
   \<and> (get_validated_group_by_columns g t = Inr cols \<and> group_mode g = ''percentile'' \<longrightarrow>
        (\<exists>n. num_groups g = IntObj n
           \<and> get_group_augmented_records_query t g
               = get_percentile_range_group_select t cols n))
   \<and> (get_validated_group_by_columns g t = Inr cols \<and> group_mode g = ''distinct'' \<longrightarrow>
        get_group_augmented_records_query t g = Inr (get_distinct_group_select t cols))
   \<and> (get_validated_group_by_columns g t = Inr cols \<longrightarrow>
        group_mode g = ''percentile'' \<or> group_mode g = ''distinct'')
   \<and> get_group_augmented_records_query t g \<noteq> Inl (BadGroupFormat UnknownError)"
proof (intro conjI impI)
  assume "get_validated_group_by_columns g t = Inl e"
  then show "get_group_augmented_records_query t g = Inl e"
    by (simp add: get_group_augmented_records_query_def)
next
  assume a: "get_validated_group_by_columns g t = Inr cols \<and> group_mode g = ''percentile''"
  then have "validate g = Inr ()" by (auto dest: get_validated_Inr_validate)
  with a have "is_int (num_groups g)" by (simp add: validate_Inr_iff)
  then obtain n where "num_groups g = IntObj n" by (cases "num_groups g") auto
  with a show "\<exists>n. num_groups g = IntObj n
           \<and> get_group_augmented_records_query t g
               = get_percentile_range_group_select t cols n"
    by (simp add: get_group_augmented_records_query_def)
next
  assume "get_validated_group_by_columns g t = Inr cols \<and> group_mode g = ''distinct''"
  then show "get_group_augmented_records_query t g = Inr (get_distinct_group_select t cols)"
    by (simp add: get_group_augmented_records_query_def)
next
  assume "get_validated_group_by_columns g t = Inr cols"
  then have "validate g = Inr ()" by (rule get_validated_Inr_validate)
  then show "group_mode g = ''percentile'' \<or> group_mode g = ''distinct''"
    by (auto simp: validate_Inr_iff)
next
  show "get_group_augmented_records_query t g \<noteq> Inl (BadGroupFormat UnknownError)"
  proof (cases "get_validated_group_by_columns g t")
    case (Inl e)
    with get_validated_not_unknown [of g t] show ?thesis
      by (simp add: get_group_augmented_records_query_def)
  next
    case (Inr cs)
    then have v: "validate g = Inr ()" by (rule get_validated_Inr_validate)
    then have "group_mode g = ''percentile'' \<and> is_int (num_groups g)
        \<or> group_mode g = ''distinct''"
      by (auto simp: validate_Inr_iff)
    then show ?thesis
    proof
      assume p: "group_mode g = ''percentile'' \<and> is_int (num_groups g)"
      then obtain n where "num_groups g = IntObj n" by (cases "num_groups g") auto
      with p Inr show ?thesis
        by (simp add: get_group_augmented_records_query_def percentile_select_not_unknown)
    next
      assume "group_mode g = ''distinct''"
      with Inr show ?thesis by (simp add: get_group_augmented_records_query_def)
    qed
  qed
qed

lemma example_resolution:
  "get_validated_group_by_columns
      \<lparr>column_list = ListObj [StrObj ''a''], group_mode = m, num_groups = IntObj 4\<rparr>
      \<lparr>table_name = ''t'', columns = [Column ''t'' ''a'', Column ''t'' ''b'']\<rparr>
     = (if m = ''distinct'' \<or> m = ''percentile'' then Inr [Column ''t'' ''a'']
        else Inl (InvalidGroupType m))"
  by (simp add: get_validated_group_by_columns_def validate_def mode_values has_column_def
      column_named_def)

theorem query_dispatch_witness:
  "get_group_augmented_records_query
      \<lparr>table_name = ''t'', columns = [Column ''t'' ''a'', Column ''t'' ''b'']\<rparr>
      \<lparr>column_list = ListObj [StrObj ''a''], group_mode = ''percentile'', num_groups = IntObj 4\<rparr>
     = get_percentile_range_group_select
         \<lparr>table_name = ''t'', columns = [Column ''t'' ''a'', Column ''t'' ''b'']\<rparr>
         [Column ''t'' ''a''] 4
   \<and> get_group_augmented_records_query
      \<lparr>table_name = ''t'', columns = [Column ''t'' ''a'', Column ''t'' ''b'']\<rparr>
      \<lparr>column_list = ListObj [StrObj ''a''], group_mode = ''distinct'', num_groups = IntObj 4\<rparr>
     = Inr (get_distinct_group_select
              \<lparr>table_name = ''t'', columns = [Column ''t'' ''a'', Column ''t'' ''b'']\<rparr>
              [Column ''t'' ''a''])
   \<and> get_group_augmented_records_query
      \<lparr>table_name = ''t'', columns = [Column ''t'' ''a'', Column ''t'' ''b'']\<rparr>
      \<lparr>column_list = ListObj [StrObj ''a''], group_mode = ''median'', num_groups = IntObj 4\<rparr>
     = Inl (InvalidGroupType ''median'')"
  using
    query_dispatch [of
      "\<lparr>column_list = ListObj [StrObj ''a''], group_mode = ''percentile'', num_groups = IntObj 4\<rparr>"
      "\<lparr>table_name = ''t'', columns = [Column ''t'' ''a'', Column ''t'' ''b'']\<rparr>"
      _ "[Column ''t'' ''a'']"]
    query_dispatch [of
      "\<lparr>column_list = ListObj [StrObj ''a''], group_mode = ''distinct'', num_groups = IntObj 4\<rparr>"
      "\<lparr>table_name = ''t'', columns = [Column ''t'' ''a'', Column ''t'' ''b'']\<rparr>"
      _ "[Column ''t'' ''a'']"]
    query_dispatch [of
      "\<lparr>column_list = ListObj [StrObj ''a''], group_mode = ''median'', num_groups = IntObj 4\<rparr>"
      "\<lparr>table_name = ''t'', columns = [Column ''t'' ''a'', Column ''t'' ''b'']\<rparr>"
      "InvalidGroupType ''median''"]
  by (simp add: example_resolution)


subsection \<open>Double-precision division\<close>

text \<open>
  Rounding moves a number by at most half a unit of the last place. A quotient between
  0 and 1 is therefore within \<open>2 ^ - 54\<close> of its double, and the doubles of two quotients
  \<open>a / N < b / N\<close> with \<open>N < 2 ^ 53\<close> are different.
\<close>

lemma round_half_even_err: "\<bar>of_int (round_half_even m) - m\<bar> \<le> 1 / 2"
proof -
  define f where "f = \<lfloor>m\<rfloor>"
  define d where "d = m - of_int f"
  have a: "0 \<le> d" by (simp add: d_def f_def)
  have b: "d < 1" unfolding d_def f_def by linarith
  have m: "m = of_int f + d" by (simp add: d_def)
  have r: "round_half_even m =
             (if d < 1 / 2 then f else if 1 / 2 < d then f + 1 else if even f then f else f + 1)"
    by (simp add: round_half_even_def Let_def f_def d_def)
  consider "d < 1 / 2" | "1 / 2 < d" | "d = 1 / 2" by fastforce
  then show ?thesis
  proof cases
    case 1
    then have "round_half_even m = f" by (simp add: r)
    then show ?thesis using 1 a by (simp add: d_def)
  next
    case 2
    then have "round_half_even m = f + 1" by (simp add: r)
    then show ?thesis using 2 b by (simp add: d_def)
  next
    case 3
    then have "round_half_even m = f \<or> round_half_even m = f + 1" by (simp add: r)
    then show ?thesis using 3 by (auto simp: d_def)
  qed
qed

lemma round_half_even_of_int: "round_half_even (of_int z) = z"
  by (simp add: round_half_even_def)

lemma round_half_even_le: "m \<le> of_int z \<Longrightarrow> round_half_even m \<le> z"
proof -
  assume h: "m \<le> of_int z"
  have f: "\<lfloor>m\<rfloor> \<le> z" using h by (simp add: floor_le_iff) 
  show ?thesis
  proof (cases "\<lfloor>m\<rfloor> = z")
    case True
    then have "m - of_int \<lfloor>m\<rfloor> \<le> 0" using h by simp
    then show ?thesis using True by (simp add: round_half_even_def Let_def)
  next
    case False
    then have "\<lfloor>m\<rfloor> + 1 \<le> z" using f by simp
    then show ?thesis by (simp add: round_half_even_def Let_def)
  qed
qed

lemma bitlen_lower: "0 < a \<Longrightarrow> (2::rat) powi (bitlen a - 1) \<le> of_int a"
proof -
  assume a: "0 < a"
  then have "2 ^ nat (bitlen a - 1) \<le> a" using bitlen_bounds [of a] by simp
  then have "(of_int (2 ^ nat (bitlen a - 1)) :: rat) \<le> of_int a" by (simp only: of_int_le_iff)
  moreover have "0 \<le> bitlen a - 1" using a bitlen_bounds [of a] by (simp add: bitlen_def floorlog_def)
  ultimately show ?thesis by (simp add: power_int_def)
qed

lemma bitlen_upper: "0 < a \<Longrightarrow> of_int a < (2::rat) powi (bitlen a)"
proof -
  assume a: "0 < a"
  then have "a < 2 ^ nat (bitlen a)" using bitlen_bounds [of a] by simp
  then have "(of_int a :: rat) < of_int (2 ^ nat (bitlen a))" by (simp only: of_int_less_iff)
  moreover have "0 \<le> bitlen a" by (simp add: bitlen_def)
  ultimately show ?thesis by (simp add: power_int_def)
qed

lemma float_exponent_bounds:
  assumes q: "0 < q"
  shows "2 powi float_exponent q \<le> q \<and> q < 2 powi (float_exponent q + 1)"
proof -
  obtain a b where ab: "quotient_of q = (a, b)" by (cases "quotient_of q")
  have b: "0 < b" using ab quotient_of_denom_pos by blast
  have qe: "q = of_int a / of_int b" using ab by (rule quotient_of_div)
  have a: "0 < a" using q b qe by (simp add: zero_less_divide_iff)
  define d where "d = bitlen a - bitlen b"
  have fe: "float_exponent q = (if q < 2 powi d then d - 1 else d)"
    by (simp add: float_exponent_def ab d_def)
  have lo: "(2::rat) powi (d - 1) \<le> q"
  proof -
    have "(2::rat) powi (d - 1) * of_int b \<le> 2 powi (d - 1) * 2 powi (bitlen b)"
      using bitlen_upper [OF b] by (simp add: mult_left_mono)
    also have "... = 2 powi (bitlen a - 1)" by (simp add: d_def power_int_add [symmetric])
    also have "... \<le> of_int a" by (rule bitlen_lower [OF a])
    finally show ?thesis using b by (simp add: qe pos_le_divide_eq)
  qed
  have hi: "q < (2::rat) powi (d + 1)"
  proof -
    have "of_int a < (2::rat) powi (bitlen a)" by (rule bitlen_upper [OF a])
    also have "... = 2 powi (d + 1) * 2 powi (bitlen b - 1)" by (simp add: d_def power_int_add [symmetric])
    also have "... \<le> 2 powi (d + 1) * of_int b"
      using bitlen_lower [OF b] by (simp add: mult_left_mono)
    finally show ?thesis using b by (simp add: qe pos_divide_less_eq)
  qed
  show ?thesis using lo hi by (simp add: fe)
qed

lemma to_double_0: "to_double 0 = 0" by (simp add: to_double_def)

lemma to_double_1: "to_double 1 = 1" by code_simp

lemma float_exponent_neg: assumes "0 < q" "q < 1" shows "float_exponent q \<le> - 1"
proof (rule ccontr)
  assume "\<not> float_exponent q \<le> - 1"
  then have "0 \<le> float_exponent q" by simp
  then have "(1::rat) \<le> 2 powi float_exponent q" by (simp add: one_le_power_int)
  then show False using float_exponent_bounds [OF assms(1)] assms(2) by simp
qed

lemma to_double_err:
  assumes "0 \<le> q" "q \<le> 1"
  shows "\<bar>to_double q - q\<bar> \<le> 1 / 2 ^ 54"
proof -
  consider "q = 0" | "q = 1" | "0 < q" "q < 1" using assms by fastforce
  then show ?thesis
  proof cases
    case 1 then show ?thesis by (simp add: to_double_0)
  next
    case 2 then show ?thesis by (simp add: to_double_1)
  next
    case 3
    define k where "k = ulp_exponent q"
    define u :: rat where "u = 2 powi k"
    have u: "0 < u" by (simp add: u_def)
    have "k \<le> - 53" using float_exponent_neg [OF 3] by (simp add: k_def ulp_exponent_def)
    then have "u \<le> 2 powi (- 53)" unfolding u_def by (intro power_int_increasing) simp_all
    then have u53: "u \<le> 1 / 2 ^ 53" by (simp add: power_int_minus field_simps)
    have td: "to_double q = of_int (round_half_even (q / u)) * u"
      using 3 by (simp add: to_double_def k_def u_def)
    have "to_double q - q = (of_int (round_half_even (q / u)) - q / u) * u"
      using u by (simp add: td left_diff_distrib)
    then have "\<bar>to_double q - q\<bar> = \<bar>of_int (round_half_even (q / u)) - q / u\<bar> * u"
      using u by (simp add: abs_mult)
    also have "... \<le> 1 / 2 * u" using round_half_even_err [of "q / u"] u by (simp add: mult_right_mono)
    also have "... \<le> 1 / 2 * (1 / 2 ^ 53)" using u53 by simp
    finally show ?thesis by simp
  qed
qed

lemma float_div_0: "float_div 0 n = 0" by (simp add: float_div_def to_double_0)

lemma float_div_same: "0 < n \<Longrightarrow> float_div n n = 1" by (simp add: float_div_def to_double_1)

lemma float_div_err:
  assumes "0 < N" "0 \<le> i" "i \<le> N"
  shows "\<bar>float_div i N - of_int i / of_int N\<bar> \<le> 1 / 2 ^ 54"
  unfolding float_div_def using assms by (intro to_double_err) simp_all

lemma float_div_strict:
  assumes N: "0 < N" "N < 2 ^ 53" and ab: "0 \<le> a" "a < b" "b \<le> N"
  shows "float_div a N < float_div b N"
proof -
  have ea: "\<bar>float_div a N - of_int a / of_int N\<bar> \<le> 1 / 2 ^ 54"
    using N ab by (intro float_div_err) simp_all
  have eb: "\<bar>float_div b N - of_int b / of_int N\<bar> \<le> 1 / 2 ^ 54"
    using N ab by (intro float_div_err) simp_all
  have "(of_int N :: rat) < of_int (2 ^ 53)" using N(2) by (simp only: of_int_less_iff)
  then have n: "(of_int N :: rat) < 2 ^ 53" by simp
  have n0: "(0::rat) < of_int N" using N(1) by simp
  have "1 / 2 ^ 53 < 1 / (of_int N :: rat)" using n n0 by (simp add: frac_less2)
  moreover have "(of_int a + 1 :: rat) \<le> of_int b" using ab(2) by (metis of_int_1 of_int_add of_int_le_iff zless_imp_add1_zle)
  then have "of_int a / of_int N + 1 / (of_int N :: rat) \<le> of_int b / of_int N"
    using n0 by (simp add: add_divide_distrib [symmetric] divide_right_mono)
  ultimately have "of_int a / of_int N + 1 / 2 ^ 53 < of_int b / (of_int N :: rat)" by simp
  moreover define e :: rat where "e = 1 / 2 ^ 54"
  moreover have "(1::rat) / 2 ^ 53 = 2 * e" by (simp add: e_def)
  ultimately have "of_int a / of_int N + 2 * e < of_int b / (of_int N :: rat)" by simp
  moreover have "\<bar>float_div a N - of_int a / of_int N\<bar> \<le> e" using ea by (simp only: e_def)
  moreover have "\<bar>float_div b N - of_int b / of_int N\<bar> \<le> e" using eb by (simp only: e_def)
  ultimately show ?thesis by linarith
qed

lemma float_div_cong:
  assumes "0 < n" "0 < N" "k * N = i * n"
  shows "float_div k n = float_div i N"
proof -
  have "(of_int (k * N) :: rat) = of_int (i * n)" using assms(3) by simp
  then have "(of_int k :: rat) * of_int N = of_int i * of_int n" by simp
  then have "(of_int k :: rat) / of_int n = of_int i / of_int N"
    using assms(1,2) by (simp add: frac_eq_eq)
  then show ?thesis by (simp add: float_div_def)
qed

subsection \<open>Percentile buckets\<close>

text \<open>
  The \<^verbatim>\<open>CASE\<close> over the pairs from index \<open>a\<close> on, for a row whose compared column has the
  value \<open>x\<close>: one step, the existence of a branch that holds, the first branch that holds,
  and the labels that can be returned at all.
\<close>

lemma holds_range_pair:
  "row s n = Some x \<Longrightarrow>
   holds row (fst (range_pair (CteCol s n) N i))
     = Some (float_div i N < x \<and> x \<le> float_div (i + 1) N)"
  by (simp add: range_pair_def)

lemma case_whens_step:
  assumes row: "row s n = Some x" and a: "a < N"
  shows "case_whens row (map (range_pair (CteCol s n) N) [a..N - 1]) =
           (if float_div a N < x \<and> x \<le> float_div (a + 1) N then Inr (Some (LiteralInt (a + 1)))
            else case_whens row (map (range_pair (CteCol s n) N) [a + 1..N - 1]))"
proof -
  have u: "[a..N - 1] = a # [a + 1..N - 1]" using a by (simp add: upto_rec1)
  have p: "range_pair (CteCol s n) N a = (fst (range_pair (CteCol s n) N a), LiteralInt (a + 1))"
    by (simp add: range_pair_def)
  show ?thesis
    unfolding u list.map by (subst p) (simp add: holds_range_pair [where row = row and s = s and n = n, OF row])
qed

lemma case_whens_exists:
  assumes row: "row s n = Some x"
  shows "a < N \<Longrightarrow> float_div a N < x \<Longrightarrow> x \<le> float_div N N \<Longrightarrow>
         \<exists>i. a \<le> i \<and> i < N
           \<and> case_whens row (map (range_pair (CteCol s n) N) [a..N - 1]) = Inr (Some (LiteralInt (i + 1)))
           \<and> float_div i N < x \<and> x \<le> float_div (i + 1) N"
proof (induction "nat (N - a)" arbitrary: a)
  case 0
  then show ?case by simp
next
  case (Suc k)
  show ?case
  proof (cases "x \<le> float_div (a + 1) N")
    case True
    then have "case_whens row (map (range_pair (CteCol s n) N) [a..N - 1]) = Inr (Some (LiteralInt (a + 1)))"
      using Suc.prems by (simp add: case_whens_step [where row = row and s = s and n = n, OF row])
    then show ?thesis using True Suc.prems by (intro exI [of _ a]) simp
  next
    case False
    then have lt: "float_div (a + 1) N < x" by simp
    have "a + 1 \<noteq> N" using False Suc.prems(3) by auto
    then have a1: "a + 1 < N" using Suc.prems(1) by simp
    have k: "k = nat (N - (a + 1))" using Suc.hyps(2) by simp
    from Suc.hyps(1) [OF k a1 lt Suc.prems(3)]
    obtain i where i: "a + 1 \<le> i" "i < N"
      "case_whens row (map (range_pair (CteCol s n) N) [a + 1..N - 1]) = Inr (Some (LiteralInt (i + 1)))"
      "float_div i N < x" "x \<le> float_div (i + 1) N" by blast
    have "case_whens row (map (range_pair (CteCol s n) N) [a..N - 1]) = Inr (Some (LiteralInt (i + 1)))"
      using False i(3) Suc.prems(1) by (simp add: case_whens_step [where row = row and s = s and n = n, OF row])
    then show ?thesis using i by (intro exI [of _ i]) simp
  qed
qed

lemma case_whens_first:
  assumes row: "row s n = Some x"
  shows "a \<le> j \<Longrightarrow> j < N \<Longrightarrow> float_div j N < x \<Longrightarrow> x \<le> float_div (j + 1) N \<Longrightarrow>
         (\<forall>m. a \<le> m \<and> m < j \<longrightarrow> \<not> (float_div m N < x \<and> x \<le> float_div (m + 1) N)) \<Longrightarrow>
         case_whens row (map (range_pair (CteCol s n) N) [a..N - 1]) = Inr (Some (LiteralInt (j + 1)))"
proof (induction "nat (j - a)" arbitrary: a)
  case 0
  then have "a = j" by simp
  then show ?case using 0 by (simp add: case_whens_step [where row = row and s = s and n = n, OF row])
next
  case (Suc k)
  have aj: "a < j" using Suc.hyps(2) by simp
  then have no: "\<not> (float_div a N < x \<and> x \<le> float_div (a + 1) N)" using Suc.prems(5) by simp
  have k: "k = nat (j - (a + 1))" using Suc.hyps(2) by simp
  have rest: "\<forall>m. a + 1 \<le> m \<and> m < j \<longrightarrow> \<not> (float_div m N < x \<and> x \<le> float_div (m + 1) N)"
    using Suc.prems(5) by simp
  have a1: "a + 1 \<le> j" using aj by simp
  have "case_whens row (map (range_pair (CteCol s n) N) [a + 1..N - 1]) = Inr (Some (LiteralInt (j + 1)))"
    by (rule Suc.hyps(1) [OF k a1 Suc.prems(2) Suc.prems(3) Suc.prems(4) rest])
  moreover have "a < N" using aj Suc.prems(2) by simp
  ultimately show ?case using no by (auto simp: case_whens_step [where row = row and s = s and n = n, OF row])
qed

lemma case_whens_label:
  "case_whens row (map (range_pair c N) [a..N - 1]) = Inr (Some v) \<Longrightarrow>
   \<exists>i. a \<le> i \<and> i < N \<and> v = LiteralInt (i + 1)"
proof (induction "nat (N - a)" arbitrary: a)
  case 0
  then have "[a..N - 1] = []" by simp
  then show ?case using 0 by simp
next
  case (Suc k)
  have a: "a < N" using Suc.hyps(2) by simp
  have u: "[a..N - 1] = a # [a + 1..N - 1]" using a by (simp add: upto_rec1)
  have k: "k = nat (N - (a + 1))" using Suc.hyps(2) by simp
  obtain p where p: "range_pair c N a = (p, LiteralInt (a + 1))" by (simp add: range_pair_def)
  show ?case
  proof (cases "holds row p")
    case None
    then show ?thesis using Suc.prems by (simp add: u p)
  next
    case (Some h)
    show ?thesis
    proof (cases h)
      case True
      then have "v = LiteralInt (a + 1)" using Suc.prems Some by (simp add: u p)
      then show ?thesis using a by (intro exI [of _ a]) simp
    next
      case False
      then have "case_whens row (map (range_pair c N) [a + 1..N - 1]) = Inr (Some v)"
        using Suc.prems Some by (simp add: u p)
      from Suc.hyps(1) [OF k this] obtain i where "a + 1 \<le> i" "i < N" "v = LiteralInt (i + 1)" by blast
      then show ?thesis by (intro exI [of _ i]) simp
    qed
  qed
qed

lemma percentile_ranges_nth:
  "0 \<le> i \<Longrightarrow> i < N \<Longrightarrow> percentile_ranges c N ! nat i =
     (And (Gt c (LiteralNum (float_div i N))) (Le c (LiteralNum (float_div (i + 1) N))),
      LiteralInt (i + 1))"
  by (simp add: percentile_ranges_def range_pair_def)

lemma percentile_ranges_length: "length (percentile_ranges c N) = nat N"
  by (simp add: percentile_ranges_def)

lemma percentile_ranges_nonempty: "0 < N \<Longrightarrow> percentile_ranges c N \<noteq> []"
  using percentile_ranges_length [of c N] by auto

lemma find_append_None: "find P xs = None \<Longrightarrow> find P (xs @ ys) = find P ys"
  by (induction xs) (simp_all split: if_splits)

lemma names_cume_dist_cte:
  "List.map_filter expr_name (selected (cume_dist_cte t cols))
     = map col_name (columns t) @ [CUME_DIST]"
  by (simp add: cume_dist_cte_def select_table_and_def map_filter_def o_def)

lemma column_def_cume_dist_cte:
  assumes "\<not> has_column t CUME_DIST"
  shows "column_def (cume_dist_cte t cols) CUME_DIST
           = Some (Label (Over (FuncCall ''cume_dist'' []) [] (map Col cols) None) CUME_DIST)"
proof -
  have "find (\<lambda>e. expr_name e = Some CUME_DIST) (map Col (columns t)) = None"
    using assms by (force simp: find_None_iff has_column_def)
  then show ?thesis
    by (simp add: column_def_def cume_dist_cte_def select_table_and_def find_append_None)
qed

lemma selected_ranges_cte:
  "selected (ranges_cte t cols N) =
     filter (\<lambda>col. expr_name col \<noteq> Some CUME_DIST) (cte_columns (cume_dist_cte t cols))
     @ [Label (Case (percentile_ranges (CteCol (cume_dist_cte t cols) CUME_DIST) N)) RANGE_ID]"
  by (simp add: ranges_cte_def Let_def)

lemma column_def_ranges_cte:
  assumes "\<not> has_column t RANGE_ID"
  shows "column_def (ranges_cte t cols N) RANGE_ID
           = Some (Label (Case (percentile_ranges (CteCol (cume_dist_cte t cols) CUME_DIST) N)) RANGE_ID)"
proof -
  have "RANGE_ID \<noteq> CUME_DIST" by (simp add: RANGE_ID_def CUME_DIST_def)
  then have "find (\<lambda>e. expr_name e = Some RANGE_ID)
          (filter (\<lambda>col. expr_name col \<noteq> Some CUME_DIST) (cte_columns (cume_dist_cte t cols))) = None"
    using assms by (force simp: find_None_iff has_column_def cte_columns_def names_cume_dist_cte)
  then show ?thesis
    by (simp add: column_def_def selected_ranges_cte find_append_None)
qed

lemma builder_result:
  assumes "\<not> has_column t CUME_DIST" "\<not> has_column t RANGE_ID"
  shows "\<exists>es wd ac. get_percentile_range_group_select t cols N
           = Inr (Select (es @ [get_group_metadata_definition wd ac
                                  (CteCol (ranges_cte t cols N) RANGE_ID)]))"
  using assms by (simp add: get_percentile_range_group_select_def Let_def) blast

lemma group_id_expr_of_metadata:
  "group_id_expr_of (Select (es @ [get_group_metadata_definition wd ac g])) = Some g"
  by (simp add: group_id_expr_of_def get_group_metadata_definition_def Let_def)

lemma group_id_value_percentile:
  assumes "\<not> has_column t RANGE_ID"
  shows "group_id_value (Select (es @ [get_group_metadata_definition wd ac
                                  (CteCol (ranges_cte t cols N) RANGE_ID)])) row
         = case_value row (percentile_ranges (CteCol (cume_dist_cte t cols) CUME_DIST) N)"
  by (simp add: group_id_value_def group_id_expr_of_metadata column_def_ranges_cte [OF assms])

text \<open>
  Claim C7. For a positive \<^verbatim>\<open>num_groups\<close> \<open>N\<close> and a table without columns named
  \<^verbatim>\<open>cume_dist\<close> or \<^verbatim>\<open>range_id\<close>, the percentile builder returns a statement whose group id
  is the column \<^verbatim>\<open>range_id\<close> of stage 2; stage 2 defines it as the \<^verbatim>\<open>CASE\<close> over the list of
  ranges on the column \<^verbatim>\<open>cume_dist\<close> of stage 1, which stage 1 defines as \<^verbatim>\<open>cume_dist()\<close>
  over the grouping columns. The list has \<open>N\<close> pairs; its pair \<open>i\<close> (for \<open>i\<close> from 0 to
  \<open>N - 1\<close>) is the predicate \<^verbatim>\<open>cume_dist > i/N AND cume_dist <= (i+1)/N\<close> with the label
  \<open>i + 1\<close>, where the bounds are the doubles of Python's division: within \<open>2 ^ - 54\<close> of
  the exact quotients, and exactly 0 and 1 at the two ends. Hence a row whose cumulative
  distribution \<open>x\<close> lies in \<open>(0, 1]\<close> is given a group id \<open>b\<close> with \<open>1 \<le> b \<le> N\<close>, the
  bounds of bucket \<open>b\<close> enclosing \<open>x\<close>; no group id outside \<open>[1, N]\<close> is ever given; and,
  for \<open>N < 2 ^ 53\<close>, a row whose cumulative distribution is \<open>i/N\<close> (the double of a
  quotient \<open>k/n\<close> of row counts equal to \<open>i/N\<close>, as the database computes it) is given
  bucket \<open>i\<close>, not \<open>i + 1\<close>.
\<close>

theorem percentile_buckets:
  assumes "0 < N" and "\<not> has_column t CUME_DIST" and "\<not> has_column t RANGE_ID"
  shows
    "\<exists>sel.
       get_percentile_range_group_select t cols N = Inr sel
     \<and> group_id_expr_of sel = Some (CteCol (ranges_cte t cols N) RANGE_ID)
     \<and> column_def (ranges_cte t cols N) RANGE_ID
         = Some (Label (Case (percentile_ranges (CteCol (cume_dist_cte t cols) CUME_DIST) N))
                   RANGE_ID)
     \<and> column_def (cume_dist_cte t cols) CUME_DIST
         = Some (Label (Over (FuncCall ''cume_dist'' []) [] (map Col cols) None) CUME_DIST)
     \<and> length (percentile_ranges (CteCol (cume_dist_cte t cols) CUME_DIST) N) = nat N
     \<and> (\<forall>i. 0 \<le> i \<and> i < N \<longrightarrow>
          percentile_ranges (CteCol (cume_dist_cte t cols) CUME_DIST) N ! nat i =
            (And (Gt (CteCol (cume_dist_cte t cols) CUME_DIST) (LiteralNum (float_div i N)))
                 (Le (CteCol (cume_dist_cte t cols) CUME_DIST)
                    (LiteralNum (float_div (i + 1) N))),
             LiteralInt (i + 1)))
     \<and> (\<forall>i. 0 \<le> i \<and> i \<le> N \<longrightarrow> \<bar>float_div i N - of_int i / of_int N\<bar> \<le> 1 / 2 ^ 54)
     \<and> float_div 0 N = 0
     \<and> float_div N N = 1
     \<and> (\<forall>row x. row (cume_dist_cte t cols) CUME_DIST = Some x \<and> 0 < x \<and> x \<le> 1 \<longrightarrow>
          (\<exists>b. group_id_value sel row = Inr (Some (LiteralInt b)) \<and> 1 \<le> b \<and> b \<le> N
             \<and> float_div (b - 1) N < x \<and> x \<le> float_div b N))
     \<and> (\<forall>row v. group_id_value sel row = Inr (Some v) \<longrightarrow>
          (\<exists>b. v = LiteralInt b \<and> 1 \<le> b \<and> b \<le> N))
     \<and> (\<forall>row i k n. N < 2 ^ 53 \<and> 1 \<le> i \<and> i \<le> N \<and> 0 < n \<and> k * N = i * n
            \<and> row (cume_dist_cte t cols) CUME_DIST = Some (float_div k n) \<longrightarrow>
          group_id_value sel row = Inr (Some (LiteralInt i)))"
proof -
  define c where "c = CteCol (cume_dist_cte t cols) CUME_DIST"
  from builder_result [OF assms(2,3)] obtain es wd ac where
    sel: "get_percentile_range_group_select t cols N
            = Inr (Select (es @ [get_group_metadata_definition wd ac
                                   (CteCol (ranges_cte t cols N) RANGE_ID)]))"
    by blast
  define sel where
    "sel = Select (es @ [get_group_metadata_definition wd ac (CteCol (ranges_cte t cols N) RANGE_ID)])"
  have gv: "group_id_value sel row = case_whens row (map (range_pair c N) [0..N - 1])" for row
    using percentile_ranges_nonempty [OF assms(1), of c]
    by (simp add: sel_def group_id_value_percentile [OF assms(3)] case_value_def c_def [symmetric]
        percentile_ranges_def)
  have S1: "get_percentile_range_group_select t cols N = Inr sel" by (simp add: sel sel_def)
  have S2: "group_id_expr_of sel = Some (CteCol (ranges_cte t cols N) RANGE_ID)"
    by (simp add: sel_def group_id_expr_of_metadata)
  have S3: "column_def (ranges_cte t cols N) RANGE_ID = Some (Label (Case (percentile_ranges c N)) RANGE_ID)"
    unfolding c_def by (rule column_def_ranges_cte [OF assms(3)])
  have S4: "column_def (cume_dist_cte t cols) CUME_DIST
         = Some (Label (Over (FuncCall ''cume_dist'' []) [] (map Col cols) None) CUME_DIST)"
    by (rule column_def_cume_dist_cte [OF assms(2)])
  have S5: "length (percentile_ranges c N) = nat N" by (rule percentile_ranges_length)
  have S6: "\<forall>i. 0 \<le> i \<and> i < N \<longrightarrow>
          percentile_ranges c N ! nat i =
            (And (Gt c (LiteralNum (float_div i N))) (Le c (LiteralNum (float_div (i + 1) N))),
             LiteralInt (i + 1))"
    by (simp add: percentile_ranges_nth)
  have S7: "\<forall>i. 0 \<le> i \<and> i \<le> N \<longrightarrow> \<bar>float_div i N - of_int i / of_int N\<bar> \<le> 1 / 2 ^ 54"
    using float_div_err [OF assms(1)] by blast
  have S8: "float_div 0 N = 0" by (rule float_div_0)
  have S9: "float_div N N = 1" by (rule float_div_same [OF assms(1)])
  have S10: "\<exists>b. group_id_value sel row = Inr (Some (LiteralInt b)) \<and> 1 \<le> b \<and> b \<le> N
             \<and> float_div (b - 1) N < x \<and> x \<le> float_div b N"
    if h: "row (cume_dist_cte t cols) CUME_DIST = Some x \<and> 0 < x \<and> x \<le> 1" for row x
  proof -
    have r: "row (cume_dist_cte t cols) CUME_DIST = Some x" using h by simp
    have lo: "float_div 0 N < x" using h by (simp add: S8)
    have hi: "x \<le> float_div N N" using h by (simp add: S9)
    from case_whens_exists [where row = row and s = "cume_dist_cte t cols" and n = CUME_DIST,
        OF r assms(1) lo hi]
    obtain i where i: "0 \<le> i" "i < N"
      "case_whens row (map (range_pair c N) [0..N - 1]) = Inr (Some (LiteralInt (i + 1)))"
      "float_div i N < x" "x \<le> float_div (i + 1) N"
      unfolding c_def by blast
    show ?thesis using i by (intro exI [of _ "i + 1"]) (simp add: gv)
  qed
  have S11: "\<exists>b. v = LiteralInt b \<and> 1 \<le> b \<and> b \<le> N"
    if h: "group_id_value sel row = Inr (Some v)" for row v
  proof -
    from h have "case_whens row (map (range_pair c N) [0..N - 1]) = Inr (Some v)" by (simp add: gv)
    from case_whens_label [OF this] obtain i where "0 \<le> i" "i < N" "v = LiteralInt (i + 1)" by blast
    then show ?thesis by (intro exI [of _ "i + 1"]) simp
  qed
  have S12: "group_id_value sel row = Inr (Some (LiteralInt i))"
    if h: "N < 2 ^ 53 \<and> 1 \<le> i \<and> i \<le> N \<and> 0 < n \<and> k * N = i * n
            \<and> row (cume_dist_cte t cols) CUME_DIST = Some (float_div k n)" for row i k n
  proof -
    have e: "float_div k n = float_div i N" using h assms(1) by (intro float_div_cong) simp_all
    have r: "row (cume_dist_cte t cols) CUME_DIST = Some (float_div i N)" using h e by simp
    have N: "N < 2 ^ 53" using h by simp
    have a: "0 \<le> i - 1" "i - 1 < N" using h by simp_all
    have lo: "float_div (i - 1) N < float_div i N"
      using h by (intro float_div_strict [OF assms(1) N]) simp_all
    have hi: "float_div i N \<le> float_div (i - 1 + 1) N" by simp
    have no: "\<forall>m. 0 \<le> m \<and> m < i - 1 \<longrightarrow>
                \<not> (float_div m N < float_div i N \<and> float_div i N \<le> float_div (m + 1) N)"
    proof (intro allI impI)
      fix m assume m: "0 \<le> m \<and> m < i - 1"
      have "float_div (m + 1) N < float_div i N"
        using h m by (intro float_div_strict [OF assms(1) N]) simp_all
      then show "\<not> (float_div m N < float_div i N \<and> float_div i N \<le> float_div (m + 1) N)" by simp
    qed
    from case_whens_first [where row = row and s = "cume_dist_cte t cols" and n = CUME_DIST,
        OF r a(1) a(2) lo hi no]
    show ?thesis by (simp add: gv c_def)
  qed
  show ?thesis
    apply (rule exI [of _ sel])
    unfolding c_def [symmetric]
    apply (intro conjI)
               apply (rule S1)
              apply (rule S2)
             apply (rule S3)
            apply (rule S4)
           apply (rule S5)
          apply (rule S6)
         apply (rule S7)
        apply (rule S8)
       apply (rule S9)
      apply (intro allI impI, erule S10)
     apply (intro allI impI, erule S11)
    apply (intro allI impI, erule S12)
    done
qed

theorem percentile_buckets_witness:
  "0 < (10::int)
   \<and> \<not> has_column \<lparr>table_name = ''t'', columns = [Column ''t'' ''a'']\<rparr> CUME_DIST
   \<and> \<not> has_column \<lparr>table_name = ''t'', columns = [Column ''t'' ''a'']\<rparr> RANGE_ID
   \<and> float_div 1 10 = 3602879701896397 / 36028797018963968
   \<and> (\<exists>sel.
        get_percentile_range_group_select
          \<lparr>table_name = ''t'', columns = [Column ''t'' ''a'']\<rparr> [Column ''t'' ''a''] 10 = Inr sel
      \<and> group_id_value sel
          (\<lambda>s n. if s = cume_dist_cte \<lparr>table_name = ''t'', columns = [Column ''t'' ''a'']\<rparr>
                          [Column ''t'' ''a''] \<and> n = CUME_DIST
                 then Some (float_div 1 10) else None)
          = Inr (Some (LiteralInt 1))
      \<and> group_id_value sel
          (\<lambda>s n. if s = cume_dist_cte \<lparr>table_name = ''t'', columns = [Column ''t'' ''a'']\<rparr>
                          [Column ''t'' ''a''] \<and> n = CUME_DIST
                 then Some (float_div 3 5) else None)
          = Inr (Some (LiteralInt 6))
      \<and> (\<exists>b. group_id_value sel
                (\<lambda>s n. if s = cume_dist_cte \<lparr>table_name = ''t'', columns = [Column ''t'' ''a'']\<rparr>
                                [Column ''t'' ''a''] \<and> n = CUME_DIST
                       then Some (1 / 3) else None)
                = Inr (Some (LiteralInt b))
              \<and> 1 \<le> b \<and> b \<le> 10 \<and> float_div (b - 1) 10 < 1 / 3 \<and> 1 / 3 \<le> float_div b 10))"
proof -
  let ?t = "\<lparr>table_name = ''t'', columns = [Column ''t'' ''a'']\<rparr>"
  let ?cols = "[Column ''t'' ''a'']"
  let ?row = "\<lambda>x (s::select) n. if s = cume_dist_cte ?t ?cols \<and> n = CUME_DIST then Some (x::rat) else None"
  have h: "0 < (10::int)" by simp
  have c: "\<not> has_column ?t CUME_DIST" by (simp add: has_column_def CUME_DIST_def)
  have r: "\<not> has_column ?t RANGE_ID" by (simp add: has_column_def RANGE_ID_def)
  have f: "float_div 1 10 = 3602879701896397 / 36028797018963968" by code_simp
  from percentile_buckets [OF h c r, of ?cols]
  obtain sel where
    a: "get_percentile_range_group_select ?t ?cols 10 = Inr sel" and
    b: "\<forall>row x. row (cume_dist_cte ?t ?cols) CUME_DIST = Some x \<and> 0 < x \<and> x \<le> 1 \<longrightarrow>
          (\<exists>b. group_id_value sel row = Inr (Some (LiteralInt b)) \<and> 1 \<le> b \<and> b \<le> 10
             \<and> float_div (b - 1) 10 < x \<and> x \<le> float_div b 10)" and
    d: "\<forall>row i k n. (10::int) < 2 ^ 53 \<and> 1 \<le> i \<and> i \<le> 10 \<and> 0 < n \<and> k * 10 = i * n
            \<and> row (cume_dist_cte ?t ?cols) CUME_DIST = Some (float_div k n) \<longrightarrow>
          group_id_value sel row = Inr (Some (LiteralInt i))"
    by blast
  from d [rule_format, of 1 10 1 "?row (float_div 1 10)"]
  have d1: "group_id_value sel (?row (float_div 1 10)) = Inr (Some (LiteralInt 1))" by simp
  from d [rule_format, of 6 5 3 "?row (float_div 3 5)"]
  have d2: "group_id_value sel (?row (float_div 3 5)) = Inr (Some (LiteralInt 6))" by simp
  from b [rule_format, of "?row (1 / 3)" "1 / 3"]
  have b1: "\<exists>b. group_id_value sel (?row (1 / 3)) = Inr (Some (LiteralInt b)) \<and> 1 \<le> b \<and> b \<le> 10
             \<and> float_div (b - 1) 10 < 1 / 3 \<and> 1 / 3 \<le> float_div b 10" by simp
  from a d1 d2 b1 have "\<exists>sel. get_percentile_range_group_select ?t ?cols 10 = Inr sel
      \<and> group_id_value sel (?row (float_div 1 10)) = Inr (Some (LiteralInt 1))
      \<and> group_id_value sel (?row (float_div 3 5)) = Inr (Some (LiteralInt 6))
      \<and> (\<exists>b. group_id_value sel (?row (1 / 3)) = Inr (Some (LiteralInt b)) \<and> 1 \<le> b \<and> b \<le> 10
             \<and> float_div (b - 1) 10 < 1 / 3 \<and> 1 / 3 \<le> float_div b 10)"
    by (intro exI [of _ sel] conjI)
  with h c r f show ?thesis by (intro conjI)
qed

subsection \<open>The sign of \<^verbatim>\<open>num_groups\<close>\<close>

text \<open>
  Claim C10. \<^verbatim>\<open>validate\<close> does not look at the value of an integer \<^verbatim>\<open>num_groups\<close>: in
  percentile mode its result is the same for any two integers, and with a list or tuple
  of strings and columns it succeeds for every integer, zero and the negative ones
  included. For \<^verbatim>\<open>num_groups <= 0\<close> the percentile builder's list of bucket intervals is
  empty: the builder still returns a statement, whose \<^verbatim>\<open>range_id\<close> is a \<^verbatim>\<open>CASE\<close> of no
  branch, and the database rejects it.
\<close>

theorem validate_ignores_sign_of_num_groups:
  "validate \<lparr>column_list = cl, group_mode = ''percentile'', num_groups = IntObj n\<rparr>
     = validate \<lparr>column_list = cl, group_mode = ''percentile'', num_groups = IntObj m\<rparr>
   \<and> (is_tuple_or_list cl \<and> (\<forall>col\<in>set (elements cl). is_str_or_Column col) \<longrightarrow>
        validate \<lparr>column_list = cl, group_mode = ''percentile'', num_groups = IntObj n\<rparr>
          = Inr ())
   \<and> (n \<le> 0 \<longrightarrow>
        percentile_ranges c n = []
        \<and> case_value row (percentile_ranges c n) = Inl ProgrammingError)
   \<and> (n \<le> 0 \<and> \<not> has_column t CUME_DIST \<and> \<not> has_column t RANGE_ID \<longrightarrow>
        (\<exists>sel. get_percentile_range_group_select t cols n = Inr sel
           \<and> column_def (ranges_cte t cols n) RANGE_ID = Some (Label (Case []) RANGE_ID)
           \<and> group_id_value sel row = Inl ProgrammingError))"
proof -
  have A: "validate \<lparr>column_list = cl, group_mode = ''percentile'', num_groups = IntObj n\<rparr>
     = validate \<lparr>column_list = cl, group_mode = ''percentile'', num_groups = IntObj m\<rparr>"
    by (simp add: validate_def mode_values)
  have B: "is_tuple_or_list cl \<and> (\<forall>col\<in>set (elements cl). is_str_or_Column col) \<longrightarrow>
        validate \<lparr>column_list = cl, group_mode = ''percentile'', num_groups = IntObj n\<rparr>
          = Inr ()"
    by (simp add: validate_def mode_values validate_columns_Inr)
  have e: "percentile_ranges c' n = []" if "n \<le> 0" for c'
    using that by (simp add: percentile_ranges_def)
  have C: "n \<le> 0 \<longrightarrow>
        percentile_ranges c n = []
        \<and> case_value row (percentile_ranges c n) = Inl ProgrammingError"
    by (simp add: e case_value_def)
  have D: "\<exists>sel. get_percentile_range_group_select t cols n = Inr sel
           \<and> column_def (ranges_cte t cols n) RANGE_ID = Some (Label (Case []) RANGE_ID)
           \<and> group_id_value sel row = Inl ProgrammingError"
    if h: "n \<le> 0 \<and> \<not> has_column t CUME_DIST \<and> \<not> has_column t RANGE_ID"
  proof -
    have n: "n \<le> 0" and c: "\<not> has_column t CUME_DIST" and r: "\<not> has_column t RANGE_ID"
      using h by simp_all
    from builder_result [OF c r] obtain es wd ac where
      sel: "get_percentile_range_group_select t cols n
              = Inr (Select (es @ [get_group_metadata_definition wd ac
                                     (CteCol (ranges_cte t cols n) RANGE_ID)]))"
      by blast
    have "column_def (ranges_cte t cols n) RANGE_ID = Some (Label (Case []) RANGE_ID)"
      by (simp add: column_def_ranges_cte [OF r] e [OF n])
    moreover have "group_id_value
        (Select (es @ [get_group_metadata_definition wd ac (CteCol (ranges_cte t cols n) RANGE_ID)]))
        row = Inl ProgrammingError"
      by (simp add: group_id_value_percentile [OF r] e [OF n] case_value_def)
    ultimately show ?thesis using sel by simp
  qed
  show ?thesis
    apply (intro conjI)
       apply (rule A)
      apply (rule B)
     apply (rule C)
    apply (rule impI, erule D)
    done
qed

theorem validate_ignores_sign_of_num_groups_witness:
  "validate \<lparr>column_list = ListObj [StrObj ''a''], group_mode = ''percentile'',
              num_groups = IntObj 0\<rparr> = Inr ()
   \<and> validate \<lparr>column_list = ListObj [StrObj ''a''], group_mode = ''percentile'',
              num_groups = IntObj (- 3)\<rparr> = Inr ()
   \<and> percentile_ranges (CteCol (Select []) ''cume_dist'') 0 = []
   \<and> percentile_ranges (CteCol (Select []) ''cume_dist'') (- 3) = []
   \<and> case_value (\<lambda>s n. Some (1 / 2)) (percentile_ranges (CteCol (Select []) ''cume_dist'') (- 3))
       = Inl ProgrammingError
   \<and> (\<exists>sel. get_percentile_range_group_select
               \<lparr>table_name = ''t'', columns = [Column ''t'' ''a'']\<rparr> [Column ''t'' ''a''] (- 3)
             = Inr sel
           \<and> column_def (ranges_cte \<lparr>table_name = ''t'', columns = [Column ''t'' ''a'']\<rparr>
                           [Column ''t'' ''a''] (- 3)) RANGE_ID
             = Some (Label (Case []) RANGE_ID)
           \<and> group_id_value sel (\<lambda>s n. Some (1 / 2)) = Inl ProgrammingError)"
  using
    validate_ignores_sign_of_num_groups
      [of "ListObj [StrObj ''a'']" 0 0 "CteCol (Select []) ''cume_dist''" "\<lambda>s n. Some (1 / 2)"
          "\<lparr>table_name = ''t'', columns = [Column ''t'' ''a'']\<rparr>" "[Column ''t'' ''a'']"]
    validate_ignores_sign_of_num_groups
      [of "ListObj [StrObj ''a'']" "- 3" 0 "CteCol (Select []) ''cume_dist''" "\<lambda>s n. Some (1 / 2)"
          "\<lparr>table_name = ''t'', columns = [Column ''t'' ''a'']\<rparr>" "[Column ''t'' ''a'']"]
  by (simp add: has_column_def CUME_DIST_def RANGE_ID_def case_value_def)

section \<open>Properties of the JSON encoding\<close>

text \<open>
  Decoding what the encoder has produced gives the value back, for every value whose
  dictionaries hold no key twice. Hence the encoder is injective on such values: equal
  texts come from equal values, the order of the keys included.
\<close>
lemma of_char_digit_char: "d < 10 \<Longrightarrow> (of_char (digit_char d) :: nat) = 48 + d"
  by (simp add: digit_char_def)

lemma is_digit_digit_char: "d < 10 \<Longrightarrow> is_digit (digit_char d)"
  by (simp add: is_digit_def of_char_digit_char)

lemma show_nat_digits: "\<forall>c\<in>set (show_nat n). is_digit c"
proof (induction n rule: show_nat.induct)
  case (1 n)
  show ?case
  proof (cases "n < 10")
    case True
    then show ?thesis by (subst show_nat.simps) (simp add: is_digit_digit_char)
  next
    case False
    with 1 show ?thesis by (subst show_nat.simps) (simp add: is_digit_digit_char)
  qed
qed

lemma show_nat_nonempty: "show_nat n \<noteq> []"
  by (subst show_nat.simps) simp

lemma show_nat_no_leading_zero: "1 < length (show_nat n) \<Longrightarrow> hd (show_nat n) \<noteq> CHR ''0''"
proof (induction n rule: show_nat.induct)
  case (1 n)
  show ?case
  proof (cases "n < 10")
    case True
    then have "length (show_nat n) = 1" by (subst show_nat.simps) simp
    with "1.prems" show ?thesis by simp
  next
    case False
    then have s: "show_nat n = show_nat (n div 10) @ [digit_char (n mod 10)]"
      by (subst show_nat.simps) simp
    then have h: "hd (show_nat n) = hd (show_nat (n div 10))"
      by (simp add: show_nat_nonempty)
    show ?thesis
    proof (cases "n div 10 < 10")
      case True
      then have "show_nat (n div 10) = [digit_char (n div 10)]"
        by (subst show_nat.simps) simp
      moreover from False have "0 < n div 10" by simp
      with True have "(of_char (digit_char (n div 10)) :: nat) \<noteq> of_char CHR ''0''"
        by (simp add: of_char_digit_char)
      then have "digit_char (n div 10) \<noteq> CHR ''0''" by auto
      ultimately show ?thesis using h by simp
    next
      case d: False
      then have "show_nat (n div 10)
          = show_nat (n div 10 div 10) @ [digit_char (n div 10 mod 10)]"
        by (subst show_nat.simps) simp
      then have "1 < length (show_nat (n div 10))"
        using show_nat_nonempty [of "n div 10 div 10"]
        by (cases "show_nat (n div 10 div 10)") auto
      with "1.IH" False h show ?thesis by simp
    qed
  qed
qed

lemma read_nat_snoc: "read_nat (ds @ [d]) = 10 * read_nat ds + (of_char d - 48)"
  by (simp add: read_nat_def)

lemma read_nat_show_nat: "read_nat (show_nat n) = n"
proof (induction n rule: show_nat.induct)
  case (1 n)
  show ?case
  proof (cases "n < 10")
    case True
    then show ?thesis
      by (subst show_nat.simps) (simp add: read_nat_def of_char_digit_char)
  next
    case False
    with 1 have "read_nat (show_nat (n div 10)) = n div 10" by simp
    with False show ?thesis
      by (subst show_nat.simps) (simp add: read_nat_snoc of_char_digit_char)
  qed
qed

lemma delimited_not_digit: "delimited r \<Longrightarrow> r \<noteq> [] \<Longrightarrow> \<not> is_digit (hd r)"
  by (auto simp: delimited_def is_digit_def)

lemma scan_nat_show_nat:
  assumes "delimited r"
  shows "scan_nat (show_nat n @ r) = Some (n, r)"
proof -
  have tw: "takeWhile is_digit (show_nat n @ r) = show_nat n"
  proof (cases r)
    case Nil
    then show ?thesis using show_nat_digits [of n] by simp
  next
    case (Cons c t)
    with assms have "\<not> is_digit c" using delimited_not_digit [of r] by simp
    with Cons show ?thesis using show_nat_digits [of n]
      by (simp add: takeWhile_tail)
  qed
  have dw: "dropWhile is_digit (show_nat n @ r) = r"
  proof (cases r)
    case Nil
    then show ?thesis using show_nat_digits [of n] by simp
  next
    case (Cons c t)
    with assms have "\<not> is_digit c" using delimited_not_digit [of r] by simp
    with Cons show ?thesis using show_nat_digits [of n]
      by (simp add: dropWhile_append2)
  qed
  have "\<not> (r \<noteq> [] \<and> hd r \<in> {CHR ''.'', CHR ''e'', CHR ''E''})"
    using assms by (auto simp: delimited_def)
  moreover have "\<not> (1 < length (show_nat n) \<and> hd (show_nat n) = CHR ''0'')"
    using show_nat_no_leading_zero [of n] by blast
  ultimately show ?thesis
    unfolding scan_nat_def tw dw Let_def
    by (simp add: show_nat_nonempty read_nat_show_nat)
qed

lemma show_nat_first: "\<exists>c t. show_nat n = c # t \<and> is_digit c"
  using show_nat_nonempty [of n] show_nat_digits [of n]
  by (cases "show_nat n") auto

lemma is_digit_not_minus: "is_digit c \<Longrightarrow> c \<noteq> CHR ''-''"
  by (auto simp: is_digit_def)

lemma scan_int_show_int:
  assumes "delimited r"
  shows "scan_int (show_int i @ r) = Some (i, r)"
proof (cases "i < 0")
  case True
  then show ?thesis
    using scan_nat_show_nat [OF assms, of "nat (- i)"]
    by (simp add: scan_int_def show_int_def)
next
  case False
  obtain c t where ct: "show_nat (nat i) = c # t" "is_digit c"
    using show_nat_first by blast
  then have "c \<noteq> CHR ''-''" by (simp add: is_digit_not_minus)
  with False ct show ?thesis
    using scan_nat_show_nat [OF assms, of "nat i"]
    by (simp add: scan_int_def show_int_def)
qed



lemma hex_val_hex_char: "d < 16 \<Longrightarrow> hex_val (hex_char d) = Some d"
  by (auto simp: hex_val_def hex_char_def Let_def)

lemma unicode_escape_hex:
  "unicode_escape
     (take 4 (CHR ''0'' # CHR ''0'' # hex_char (of_char c div 16) # hex_char (of_char c mod 16) # t))
   = Some c"
proof -
  have d: "(of_char c :: nat) div 16 < 16"
    using nat_of_char_less_256 [of c] by (simp add: less_mult_imp_div_less del: nat_of_char_less_256)
  have z: "hex_val CHR ''0'' = Some 0" by (simp add: hex_val_def)
  show ?thesis
    by (simp add: unicode_escape_def z hex_val_hex_char d)
qed

lemma scanstring_escape:
  "scanstring (escape_char c @ t) = map_option (\<lambda>(s, u). (c # s, u)) (scanstring t)"
proof -
  consider (special) "c \<in> {CHR 0x22, CHR 0x5C, CHR 0x0A, CHR 0x0D, CHR 0x09, CHR 0x08, CHR 0x0C}"
    | (hex) "c \<notin> {CHR 0x22, CHR 0x5C, CHR 0x0A, CHR 0x0D, CHR 0x09, CHR 0x08, CHR 0x0C}"
        "of_char c < (0x20 :: nat) \<or> (0x7E :: nat) < of_char c"
    | (plain) "c \<notin> {CHR 0x22, CHR 0x5C, CHR 0x0A, CHR 0x0D, CHR 0x09, CHR 0x08, CHR 0x0C}"
        "\<not> (of_char c < (0x20 :: nat) \<or> (0x7E :: nat) < of_char c)"
    by blast
  then show ?thesis
  proof cases
    case special
    then show ?thesis
      by (auto simp: escape_char_def unescape_def)
  next
    case hex
    then have e: "escape_char c = [CHR 0x5C, CHR ''u'', CHR ''0'', CHR ''0'',
         hex_char (of_char c div 16), hex_char (of_char c mod 16)]"
      by (simp add: escape_char_def)
    show ?thesis
      unfolding e using unicode_escape_hex [of c t]
      by simp
  next
    case plain
    then show ?thesis
      by (simp add: escape_char_def)
  qed
qed

lemma scanstring_body:
  "scanstring (concat (map escape_char s) @ CHR 0x22 # r) = Some (s, r)"
  by (induction s) (simp_all add: scanstring_escape)

lemma encode_str_Cons: "encode_str s @ r = CHR 0x22 # concat (map escape_char s) @ CHR 0x22 # r"
  by (simp add: encode_str_def)




lemma show_int_first:
  "\<exists>c t. show_int i = c # t \<and> (c = CHR ''-'' \<or> is_digit c)"
  using show_nat_first [of "nat i"] by (auto simp: show_int_def)

lemma number_start:
  assumes "c = CHR ''-'' \<or> is_digit c"
  shows "c \<noteq> CHR 0x22 \<and> c \<noteq> CHR ''{'' \<and> c \<noteq> CHR ''['' \<and> c \<noteq> CHR ''n''
     \<and> c \<noteq> CHR ''t'' \<and> c \<noteq> CHR ''f'' \<and> c \<noteq> CHR '']'' \<and> c \<noteq> CHR ''}''"
  using assms by (auto simp: is_digit_def)

lemma parse_value_int:
  assumes "delimited r"
  shows "parse_value (Suc n) (show_int i @ r) = Some (PInt i, r)"
proof -
  obtain c t where ct: "show_int i = c # t" "c = CHR ''-'' \<or> is_digit c"
    using show_int_first by blast
  from number_start [OF ct(2)] have
    "parse_value (Suc n) (c # t @ r) = map_option (\<lambda>(i, t). (PInt i, t)) (scan_int (c # t @ r))"
    by simp
  with scan_int_show_int [OF assms, of i] ct(1) show ?thesis by simp
qed

lemma json_dumps_first:
  "\<exists>c t. json_dumps v = c # t \<and> c \<noteq> CHR '']'' \<and> c \<noteq> CHR ''}''"
proof (cases v)
  case (PInt i)
  obtain c t where "show_int i = c # t" "c = CHR ''-'' \<or> is_digit c"
    using show_int_first by blast
  with PInt number_start [of c] show ?thesis by simp
qed (auto simp: encode_str_def)

lemma dumps_items_first:
  "xs \<noteq> [] \<Longrightarrow> \<exists>c t. dumps_items xs = c # t \<and> c \<noteq> CHR '']''"
proof (cases xs)
  case Nil
  then show "xs \<noteq> [] \<Longrightarrow> ?thesis" by simp
next
  case (Cons x ys)
  obtain c t where "json_dumps x = c # t" "c \<noteq> CHR '']''"
    using json_dumps_first by blast
  with Cons show ?thesis by (cases ys) auto
qed

lemma dumps_members_first:
  "kvs \<noteq> [] \<Longrightarrow> \<exists>t. dumps_members kvs = CHR 0x22 # t"
proof (cases kvs)
  case Nil
  then show "kvs \<noteq> [] \<Longrightarrow> ?thesis" by simp
next
  case (Cons kv rest)
  then show ?thesis by (cases kv; cases rest) (auto simp: encode_str_def)
qed

lemma dict_set_append:
  "k \<notin> fst ` set d \<Longrightarrow> dict_set d k v = d @ [(k, v)]"
  by (induction d) (auto simp: dict_set_def)

lemma dict_of_pairs_from:
  "distinct (map fst (acc @ kvs)) \<Longrightarrow>
     foldl (\<lambda>d (k, v). dict_set d k v) acc kvs = acc @ kvs"
proof (induction kvs arbitrary: acc)
  case Nil
  then show ?case by simp
next
  case (Cons kv kvs)
  obtain k v where kv: "kv = (k, v)" by (cases kv)
  from Cons.prems kv have "k \<notin> fst ` set acc" by auto
  then have s: "dict_set acc k v = acc @ [(k, v)]" by (rule dict_set_append)
  from Cons.prems kv have "distinct (map fst ((acc @ [(k, v)]) @ kvs))" by simp
  from Cons.IH [OF this] s kv show ?case by simp
qed

lemma dict_of_pairs_distinct: "distinct (map fst kvs) \<Longrightarrow> dict_of_pairs kvs = kvs"
  using dict_of_pairs_from [of "[]" kvs] by (simp add: dict_of_pairs_def)

lemma delimited_simps [simp]:
  "delimited []" "delimited (CHR '','' # r)" "delimited (CHR '']'' # r)" "delimited (CHR ''}'' # r)"
  by (simp_all add: delimited_def)

lemma parse_roundtrip:
  "wf_pyval v \<Longrightarrow> length (json_dumps v) \<le> n \<Longrightarrow> delimited r \<Longrightarrow>
     parse_value n (json_dumps v @ r) = Some (v, r)"
  "xs \<noteq> [] \<Longrightarrow> wf_items xs \<Longrightarrow> Suc (length (dumps_items xs)) \<le> n \<Longrightarrow>
     parse_items n (dumps_items xs @ CHR '']'' # r) = Some (xs, r)"
  "kvs \<noteq> [] \<Longrightarrow> wf_members kvs \<Longrightarrow> Suc (length (dumps_members kvs)) \<le> n \<Longrightarrow>
     parse_members n (dumps_members kvs @ CHR ''}'' # r) = Some (kvs, r)"
proof (induction v and xs and kvs arbitrary: n r and n r and n r
    rule: json_dumps_dumps_items_dumps_members.induct)
  case 1
  then obtain m where "n = Suc m" by (cases n) auto
  then show ?case by simp
next
  case (2 b)
  then obtain m where "n = Suc m" by (cases n; cases b) auto
  then show ?case by simp
next
  case (3 i)
  have "show_int i \<noteq> []" using show_int_first [of i] by auto
  with 3 obtain m where m: "n = Suc m" by (cases n) auto
  from parse_value_int [OF "3.prems"(3), of m i] m show ?case
    by (simp only: json_dumps.simps)
next
  case (4 s)
  then obtain m where "n = Suc m" by (cases n) (auto simp: encode_str_def)
  then show ?case by (simp add: encode_str_def scanstring_body)
next
  case (5 xs)
  then obtain m where m: "n = Suc m" by (cases n) auto
  show ?case
  proof (cases "xs = []")
    case True
    with m show ?thesis by simp
  next
    case False
    then obtain c t where ct: "dumps_items xs = c # t" "c \<noteq> CHR '']''"
      using dumps_items_first by blast
    from 5 m have "Suc (length (dumps_items xs)) \<le> m" by simp
    from "5.IH" [OF False _ this, of r] "5.prems"
    have "parse_items m (dumps_items xs @ CHR '']'' # r) = Some (xs, r)" by simp
    with m ct show ?thesis by simp
  qed
next
  case (6 kvs)
  then obtain m where m: "n = Suc m" by (cases n) auto
  from 6 have d: "dict_of_pairs kvs = kvs" by (simp add: dict_of_pairs_distinct)
  show ?case
  proof (cases "kvs = []")
    case True
    with m show ?thesis by simp
  next
    case False
    then obtain t where ct: "dumps_members kvs = CHR 0x22 # t"
      using dumps_members_first by blast
    from 6 m have "Suc (length (dumps_members kvs)) \<le> m" by simp
    from "6.IH" [OF False _ this, of r] "6.prems"
    have "parse_members m (dumps_members kvs @ CHR ''}'' # r) = Some (kvs, r)" by simp
    with m ct d show ?thesis by simp
  qed
next
  case 7
  then show ?case by simp
next
  case (8 x)
  then obtain m where m: "n = Suc m" by (cases n) auto
  from 8 m have "parse_value m (json_dumps x @ CHR '']'' # r) = Some (x, CHR '']'' # r)"
    by simp
  with m show ?case by simp
next
  case (9 x y ys)
  then obtain m where m: "n = Suc m" by (cases n) auto
  from 9 m have a: "parse_value m (json_dumps x @ CHR '','' # CHR '' '' # dumps_items (y # ys) @ CHR '']'' # r)
      = Some (x, CHR '','' # CHR '' '' # dumps_items (y # ys) @ CHR '']'' # r)"
    by simp
  from "9.prems" m have "Suc (length (dumps_items (y # ys))) \<le> m" by simp
  from "9.IH"(2) [OF _ _ this, of r] "9.prems"
  have b: "parse_items m (dumps_items (y # ys) @ CHR '']'' # r) = Some (y # ys, r)" by simp
  from m a b show ?case by simp
next
  case 10
  then show ?case by simp
next
  case (11 k v)
  then obtain m where m: "n = Suc m" by (cases n) auto
  from 11 m have a: "parse_value m (json_dumps v @ CHR ''}'' # r) = Some (v, CHR ''}'' # r)"
    by simp
  with m show ?case by (simp add: encode_str_def scanstring_body)
next
  case (12 k v kv kvs)
  then obtain m where m: "n = Suc m" by (cases n) auto
  from 12 m have a: "parse_value m (json_dumps v @ CHR '','' # CHR '' '' # dumps_members (kv # kvs) @ CHR ''}'' # r)
      = Some (v, CHR '','' # CHR '' '' # dumps_members (kv # kvs) @ CHR ''}'' # r)"
    by simp
  from "12.prems" m have "Suc (length (dumps_members (kv # kvs))) \<le> m" by simp
  from "12.IH"(2) [OF _ _ this, of r] "12.prems"
  have b: "parse_members m (dumps_members (kv # kvs) @ CHR ''}'' # r) = Some (kv # kvs, r)"
    by simp
  from m a b show ?case by (simp add: encode_str_def scanstring_body)
qed

lemma json_loads_dumps:
  assumes "wf_pyval v"
  shows "json_loads (json_dumps v) = Inr v"
proof -
  have "delimited []" by simp
  from parse_roundtrip(1) [OF assms le_refl this]
  have "parse_value (length (json_dumps v)) (json_dumps v) = Some (v, [])"
    by (simp only: append_Nil2)
  then show ?thesis
    by (simp only: json_loads_def option.case prod.case list.case)
qed

lemma json_dumps_inj:
  assumes "wf_pyval a" "wf_pyval b" "json_dumps a = json_dumps b"
  shows "a = b"
proof -
  have "Inr a = json_loads (json_dumps a)" using assms(1) by (simp only: json_loads_dumps)
  also have "\<dots> = json_loads (json_dumps b)" by (simp only: assms(3))
  also have "\<dots> = Inr b" using assms(2) by (simp only: json_loads_dumps)
  finally show ?thesis by (simp only: sum.inject)
qed

section \<open>Properties of the extractor\<close>

subsection \<open>Comprehensions\<close>

lemma map_raising_Inr_D: "map_raising f xs = Inr ys \<Longrightarrow> map f xs = map Inr ys"
  by (induction xs arbitrary: ys) (auto split: sum.splits)

lemma map_raising_Inr_I: "map f xs = map Inr ys \<Longrightarrow> map_raising f xs = Inr ys"
proof (induction xs arbitrary: ys)
  case Nil
  then show ?case by simp
next
  case (Cons x xs)
  then obtain y ys' where "ys = y # ys'" "f x = Inr y" "map f xs = map Inr ys'"
    by (cases ys) auto
  with Cons.IH [of ys'] show ?case by simp
qed

lemma map_raising_Inr: "map_raising f xs = Inr ys \<longleftrightarrow> map f xs = map Inr ys"
  using map_raising_Inr_D map_raising_Inr_I by blast

lemma map_raising_Inl: "map_raising f xs = Inl e \<Longrightarrow> \<exists>x\<in>set xs. f x = Inl e"
  by (induction xs) (auto split: sum.splits)

lemma map_raising_total:
  "(\<forall>x\<in>set xs. \<exists>y. f x = Inr y) \<Longrightarrow> \<exists>ys. map_raising f xs = Inr ys"
proof (cases "map_raising f xs")
  case (Inl e)
  assume "\<forall>x\<in>set xs. \<exists>y. f x = Inr y"
  with map_raising_Inl [OF Inl] show ?thesis by auto
next
  case (Inr ys)
  then show ?thesis by blast
qed

lemma map_Inr_set:
  "map f xs = map Inr ys \<Longrightarrow> set ys = {y. \<exists>x\<in>set xs. f x = Inr y}"
proof (induction xs arbitrary: ys)
  case Nil
  then show ?case by simp
next
  case (Cons x xs)
  then show ?case by (cases ys) auto
qed

lemma map_Inr_all: "map f xs = map Inr ys \<Longrightarrow> \<forall>x\<in>set xs. \<exists>y. f x = Inr y"
proof (induction xs arbitrary: ys)
  case Nil
  then show ?case by simp
next
  case (Cons x xs)
  then show ?case by (cases ys) auto
qed

subsection \<open>Well-formed records\<close>

lemma wf_members_lookup: "wf_members kvs \<Longrightarrow> map_of kvs k = Some v \<Longrightarrow> wf_pyval v"
  by (induction kvs) (auto split: if_splits)

lemma get_record_pieces_Inr:
  "get_record_pieces dk mk r = Inr (row, g) \<longleftrightarrow>
     (\<exists>d gm md. map_of r dk = Some (PDict d)
        \<and> dict_get d MATHESAR_GROUP_METADATA (PDict []) = PDict gm
        \<and> dict_get r mk (PDict []) = PDict md
        \<and> row = dict_set [(dk, PDict (filter (\<lambda>(k, v). k \<noteq> MATHESAR_GROUP_METADATA) d))] mk
                  (PDict (dict_set md ''group_id'' (dict_get gm ''group_id'' PNone)))
        \<and> g = (if gm \<noteq> [] then PDict gm else PNone))"
  by (auto simp: get_record_pieces_def Let_def split: option.splits pyval.splits)

lemma get_record_pieces_wf:
  assumes "wf_pyval (PDict r)" "get_record_pieces dk mk r = Inr (row, g)"
  shows "wf_pyval g"
proof -
  from assms(2) obtain d gm where d: "map_of r dk = Some (PDict d)"
    and gm: "dict_get d MATHESAR_GROUP_METADATA (PDict []) = PDict gm"
    and g: "g = (if gm \<noteq> [] then PDict gm else PNone)"
    unfolding get_record_pieces_Inr by blast
  from assms(1) d have "wf_pyval (PDict d)" by (auto dest: wf_members_lookup)
  then have "wf_members d" by simp
  with gm have "wf_pyval (PDict gm)"
    by (auto simp: dict_get_def split: option.splits dest: wf_members_lookup)
  with g show ?thesis by simp
qed

subsection \<open>Deduplication through the JSON text\<close>

lemma loads_blobs:
  assumes ord: "set_iteration set_order" and wf: "\<forall>g\<in>set gt. wf_pyval g"
  shows "\<exists>gs. map_raising json_loads (set_order (map json_dumps gt)) = Inr gs
           \<and> distinct gs \<and> set gs = set gt"
proof -
  let ?bs = "set_order (map json_dumps gt)"
  from ord have dist: "distinct ?bs" and sb: "set ?bs = json_dumps ` set gt"
    by (simp_all add: set_iteration_def)
  have "\<forall>b\<in>set ?bs. \<exists>g. json_loads b = Inr g"
  proof
    fix b assume "b \<in> set ?bs"
    with sb obtain g where "g \<in> set gt" "b = json_dumps g" by auto
    with wf show "\<exists>g. json_loads b = Inr g" by (auto simp: json_loads_dumps)
  qed
  from map_raising_total [OF this] obtain gs where gs: "map_raising json_loads ?bs = Inr gs"
    by blast
  then have m: "map json_loads ?bs = map Inr gs" by (simp only: map_raising_Inr)
  then have len: "length gs = length ?bs" by (metis length_map)
  have nth: "\<forall>i<length ?bs. \<exists>g\<in>set gt. ?bs ! i = json_dumps g \<and> gs ! i = g"
  proof (intro allI impI)
    fix i assume i: "i < length ?bs"
    then have "?bs ! i \<in> json_dumps ` set gt" using sb nth_mem by blast
    then obtain g where g: "g \<in> set gt" "?bs ! i = json_dumps g" by auto
    from m i len have "json_loads (?bs ! i) = Inr (gs ! i)"
      by (metis nth_map)
    with g wf have "gs ! i = g" by (simp add: json_loads_dumps)
    with g show "\<exists>g\<in>set gt. ?bs ! i = json_dumps g \<and> gs ! i = g" by blast
  qed
  have bs_eq: "?bs = map json_dumps gs"
    by (rule nth_equalityI) (use nth len in auto)
  have "distinct (map json_dumps gs)" using dist bs_eq by simp
  then have "distinct gs" by (simp add: distinct_map)
  have sub: "set gs \<subseteq> set gt"
  proof
    fix g assume "g \<in> set gs"
    then obtain i where "i < length gs" "gs ! i = g" by (auto simp: in_set_conv_nth)
    with nth len show "g \<in> set gt" by auto
  qed
  have sup: "set gt \<subseteq> set gs"
  proof
    fix g assume g: "g \<in> set gt"
    then have "json_dumps g \<in> set ?bs" using sb by blast
    then obtain g' where g': "g' \<in> set gs" "json_dumps g' = json_dumps g"
      unfolding bs_eq by auto
    with sub wf g have "g' = g" by (auto intro: json_dumps_inj)
    with g' show "g \<in> set gs" by simp
  qed
  from gs \<open>distinct gs\<close> sub sup show ?thesis by blast
qed

subsection \<open>Sorting by \<^verbatim>\<open>group_id\<close>\<close>

lemma py_sorted_mset: "py_sorted keyed = Inr out \<Longrightarrow> mset out = mset (map snd keyed)"
  by (auto simp: py_sorted_def split: if_splits)

lemma list_all_keys:
  "list_all (\<lambda>(k, x). P k) keyed \<longleftrightarrow> (\<forall>k\<in>fst ` set keyed. P k)"
  by (induction keyed) auto

lemma py_sorted_total:
  "(\<exists>out. py_sorted keyed = Inr out) \<longleftrightarrow>
     length keyed \<le> 1 \<or> (\<forall>k\<in>fst ` set keyed. int_key k \<noteq> None)
       \<or> (\<forall>k\<in>fst ` set keyed. str_key k \<noteq> None)"
  unfolding py_sorted_def list_all_keys by simp

lemma py_le_int: "int_key a \<noteq> None \<Longrightarrow> int_key b \<noteq> None \<Longrightarrow>
    py_le a b = (int_of_key a \<le> int_of_key b)"
  by (auto simp: py_le_def int_of_key_def)

lemma py_le_str: "str_key a \<noteq> None \<Longrightarrow> str_key b \<noteq> None \<Longrightarrow>
    py_le a b = (str_of_key a \<le> str_of_key b)"
  by (cases a; cases b) (auto simp: py_le_def str_of_key_def)

lemma sorted_keys_py_le:
  fixes f :: "pyval \<Rightarrow> 'a::linorder"
  assumes "sorted (map (\<lambda>(k, x). f k) ps)"
    and "\<forall>a\<in>fst ` set ps. \<forall>b\<in>fst ` set ps. py_le a b = (f a \<le> f b)"
  shows "sorted_wrt py_le (map fst ps)"
proof -
  from assms(1) have "sorted_wrt (\<lambda>p q. f (fst p) \<le> f (fst q)) ps"
    by (simp add: sorted_map case_prod_beta)
  then have "sorted_wrt (\<lambda>p q. py_le (fst p) (fst q)) ps"
    by (rule sorted_wrt_mono_rel [rotated]) (use assms(2) in auto)
  then show ?thesis by (simp add: sorted_wrt_map)
qed

lemma py_sorted_sorted:
  assumes "py_sorted keyed = Inr out" and h: "\<forall>(k, x)\<in>set keyed. k = h x"
  shows "sorted_wrt py_le (map h out)"
proof -
  have key: "map h (map snd ps) = map fst ps" if "set ps = set keyed" for ps
    using that h by (auto simp: case_prod_beta)
  consider (short) "length keyed \<le> 1" "out = map snd keyed"
    | (ints) "list_all (\<lambda>(k, x). int_key k \<noteq> None) keyed"
        "out = map snd (sort_key (\<lambda>(k, x). int_of_key k) keyed)"
    | (strs) "list_all (\<lambda>(k, x). str_key k \<noteq> None) keyed"
        "out = map snd (sort_key (\<lambda>(k, x). str_of_key k) keyed)"
    using assms(1) by (auto simp: py_sorted_def split: if_splits)
  then show ?thesis
  proof cases
    case short
    then have "length (map h out) \<le> 1" by simp
    then show ?thesis by (cases "map h out"; cases "tl (map h out)") auto
  next
    case ints
    let ?ps = "sort_key (\<lambda>(k, x). int_of_key k) keyed"
    have s: "set ?ps = set keyed" by simp
    have "sorted (map (\<lambda>(k, x). int_of_key k) ?ps)" by (rule sorted_sort_key)
    moreover have "\<forall>a\<in>fst ` set ?ps. \<forall>b\<in>fst ` set ?ps. py_le a b = (int_of_key a \<le> int_of_key b)"
    proof (intro ballI)
      fix a b assume "a \<in> fst ` set ?ps" "b \<in> fst ` set ?ps"
      with ints(1) have "int_key a \<noteq> None" "int_key b \<noteq> None"
        unfolding list_all_keys s by blast+
      then show "py_le a b = (int_of_key a \<le> int_of_key b)" by (rule py_le_int)
    qed
    ultimately have "sorted_wrt py_le (map fst ?ps)" by (rule sorted_keys_py_le)
    then show ?thesis unfolding ints(2) key [OF s] .
  next
    case strs
    let ?ps = "sort_key (\<lambda>(k, x). str_of_key k) keyed"
    have s: "set ?ps = set keyed" by simp
    have "sorted (map (\<lambda>(k, x). str_of_key k) ?ps)" by (rule sorted_sort_key)
    moreover have "\<forall>a\<in>fst ` set ?ps. \<forall>b\<in>fst ` set ?ps. py_le a b = (str_of_key a \<le> str_of_key b)"
    proof (intro ballI)
      fix a b assume "a \<in> fst ` set ?ps" "b \<in> fst ` set ?ps"
      with strs(1) have "str_key a \<noteq> None" "str_key b \<noteq> None"
        unfolding list_all_keys s by blast+
      then show "py_le a b = (str_of_key a \<le> str_of_key b)" by (rule py_le_str)
    qed
    ultimately have "sorted_wrt py_le (map fst ?ps)" by (rule sorted_keys_py_le)
    then show ?thesis unfolding strs(2) key [OF s] .
  qed
qed

lemma group_id_of_key: "group_id_key g = Inr k \<Longrightarrow> group_id_of g = k"
  by (simp add: group_id_of_def)

lemma keys_zip:
  assumes "map group_id_key gs = map Inr ks"
  shows "length ks = length gs" "\<forall>(k, x)\<in>set (zip ks gs). k = group_id_of x"
    "ks = map group_id_of gs"
proof -
  show l: "length ks = length gs" using assms by (metis length_map)
  have n: "group_id_key (gs ! i) = Inr (ks ! i)" if "i < length gs" for i
    using assms that l by (metis nth_map)
  show "ks = map group_id_of gs"
    by (rule nth_equalityI) (use l n in \<open>auto simp: group_id_of_key\<close>)
  then show "\<forall>(k, x)\<in>set (zip ks gs). k = group_id_of x"
    by (auto simp: set_zip)
qed

subsection \<open>When the extractor returns, and what\<close>

lemma pieces_wf:
  assumes "\<forall>r\<in>set rs. wf_pyval (PDict r)" "map (get_record_pieces dk mk) rs = map Inr ps"
  shows "\<forall>g\<in>snd ` set ps. wf_pyval g"
proof -
  from map_Inr_set [OF assms(2)]
  have sp: "set ps = {p. \<exists>r\<in>set rs. get_record_pieces dk mk r = Inr p}" .
  show ?thesis
  proof
    fix g assume "g \<in> snd ` set ps"
    then obtain row where "(row, g) \<in> set ps" by auto
    with sp obtain r where r: "r \<in> set rs" "get_record_pieces dk mk r = Inr (row, g)"
      by blast
    from assms(1) r(1) have "wf_pyval (PDict r)" by blast
    then show "wf_pyval g" using r(2) by (rule get_record_pieces_wf)
  qed
qed

lemma extract_Inr_D:
  assumes ord: "set_iteration set_order" and wf: "\<forall>r\<in>set rs. wf_pyval (PDict r)"
    and ex: "extract_group_metadata set_order rs dk mk = Inr (rows, groups)"
  shows "\<exists>ps. map (get_record_pieces dk mk) rs = map Inr ps \<and> rs \<noteq> [] \<and> rows = map fst ps
     \<and> distinct groups \<and> set groups = snd ` set ps
     \<and> (\<forall>g\<in>set groups. \<exists>k. group_id_key g = Inr k)
     \<and> sorted_wrt py_le (map group_id_of groups)
     \<and> (length groups \<le> 1 \<or> (\<forall>g\<in>set groups. int_key (group_id_of g) \<noteq> None)
          \<or> (\<forall>g\<in>set groups. str_key (group_id_of g) \<noteq> None))"
proof -
  from ex obtain ps where ps: "map_raising (get_record_pieces dk mk) rs = Inr ps"
    by (auto simp: extract_group_metadata_def split: sum.splits)
  then have m: "map (get_record_pieces dk mk) rs = map Inr ps"
    by (simp only: map_raising_Inr)
  from ex ps have ne: "ps \<noteq> []"
    by (auto simp: extract_group_metadata_def split: if_splits)
  with m have rne: "rs \<noteq> []" by auto
  from pieces_wf [OF wf m] have wfg: "\<forall>g\<in>set (map snd ps). wf_pyval g" by simp
  from loads_blobs [OF ord wfg] obtain gs where
    gs: "map_raising json_loads (set_order (map json_dumps (map snd ps))) = Inr gs"
      "distinct gs" "set gs = set (map snd ps)" by blast
  from ex ps ne gs(1) obtain ks where ks: "map_raising group_id_key gs = Inr ks"
    and so: "py_sorted (zip ks gs) = Inr groups" and rows: "rows = map fst ps"
    by (auto simp: extract_group_metadata_def Let_def split: sum.splits)
  from ks have mk: "map group_id_key gs = map Inr ks" by (simp only: map_raising_Inr)
  note kz = keys_zip [OF mk]
  from py_sorted_mset [OF so] kz(1) have ms: "mset groups = mset gs" by simp
  then have sg: "set groups = set gs" by (rule mset_eq_setD)
  from ms gs(2) have dg: "distinct groups" by (metis mset_eq_imp_distinct_iff)
  have keys: "\<forall>g\<in>set groups. \<exists>k. group_id_key g = Inr k"
  proof
    fix g assume "g \<in> set groups"
    with sg obtain i where "i < length gs" "gs ! i = g" by (auto simp: in_set_conv_nth)
    with mk kz(1) have "group_id_key g = Inr (ks ! i)" by (metis nth_map)
    then show "\<exists>k. group_id_key g = Inr k" ..
  qed
  from py_sorted_sorted [OF so kz(2)] have srt: "sorted_wrt py_le (map group_id_of groups)" .
  have fstz: "fst ` set (zip ks gs) = group_id_of ` set gs"
    unfolding kz(3) by (induction gs) auto
  from so have "\<exists>out. py_sorted (zip ks gs) = Inr out" by blast
  then have "length (zip ks gs) \<le> 1
      \<or> (\<forall>k\<in>fst ` set (zip ks gs). int_key k \<noteq> None)
      \<or> (\<forall>k\<in>fst ` set (zip ks gs). str_key k \<noteq> None)"
    by (simp only: py_sorted_total)
  moreover have "length groups = length gs" using ms by (metis size_mset)
  ultimately have kinds: "length groups \<le> 1 \<or> (\<forall>g\<in>set groups. int_key (group_id_of g) \<noteq> None)
          \<or> (\<forall>g\<in>set groups. str_key (group_id_of g) \<noteq> None)"
    unfolding fstz using kz(1) sg by auto
  from m rne rows dg sg gs(3) keys srt kinds show ?thesis
    by (intro exI [of _ ps]) simp
qed

lemma extract_Inr_I:
  assumes ord: "set_iteration set_order" and wf: "\<forall>r\<in>set rs. wf_pyval (PDict r)"
    and rne: "rs \<noteq> []"
    and m: "map (get_record_pieces dk mk) rs = map Inr ps"
    and keys: "\<forall>g\<in>snd ` set ps. \<exists>k. group_id_key g = Inr k"
    and kinds: "card (snd ` set ps) \<le> 1 \<or> (\<forall>g\<in>snd ` set ps. int_key (group_id_of g) \<noteq> None)
          \<or> (\<forall>g\<in>snd ` set ps. str_key (group_id_of g) \<noteq> None)"
  shows "\<exists>groups. extract_group_metadata set_order rs dk mk = Inr (map fst ps, groups)"
proof -
  from m have ps: "map_raising (get_record_pieces dk mk) rs = Inr ps"
    by (simp only: map_raising_Inr)
  from m rne have ne: "ps \<noteq> []" by auto
  from pieces_wf [OF wf m] have wfg: "\<forall>g\<in>set (map snd ps). wf_pyval g" by simp
  from loads_blobs [OF ord wfg] obtain gs where
    gs: "map_raising json_loads (set_order (map json_dumps (map snd ps))) = Inr gs"
      "distinct gs" "set gs = set (map snd ps)" by blast
  from gs(3) keys have "\<forall>g\<in>set gs. \<exists>k. group_id_key g = Inr k" by simp
  from map_raising_total [OF this] obtain ks where ks: "map_raising group_id_key gs = Inr ks"
    by blast
  then have mk: "map group_id_key gs = map Inr ks" by (simp only: map_raising_Inr)
  note kz = keys_zip [OF mk]
  have fstz: "fst ` set (zip ks gs) = group_id_of ` set gs"
    unfolding kz(3) by (induction gs) auto
  have "card (set gs) = length gs" using gs(2) by (rule distinct_card)
  with kinds gs(3) kz(1) have "length (zip ks gs) \<le> 1
      \<or> (\<forall>k\<in>fst ` set (zip ks gs). int_key k \<noteq> None)
      \<or> (\<forall>k\<in>fst ` set (zip ks gs). str_key k \<noteq> None)"
    unfolding fstz by auto
  then obtain out where "py_sorted (zip ks gs) = Inr out"
    using py_sorted_total [of "zip ks gs"] by blast
  with ps ne gs(1) ks show ?thesis
    by (simp add: extract_group_metadata_def)
qed

lemma dict_set_lookup:
  "map_of (dict_set md k v) k' = (if k' = k then Some v else map_of md k')"
  by (simp add: dict_set_def update_conv')

lemma dict_set_same: "map_of md k = Some v \<Longrightarrow> dict_set md k v = md"
  by (simp add: dict_set_def map_of_eq_Some_iff update_triv)

lemma filter_reserved_lookup:
  "map_of (filter (\<lambda>(k, v). k \<noteq> m) d) m = None"
  by (induction d) auto

lemma extract_rows_pieces:
  assumes "extract_group_metadata set_order rs dk mk = Inr (rows, groups)"
  shows "\<exists>ps. map (get_record_pieces dk mk) rs = map Inr ps \<and> rows = map fst ps"
proof -
  from assms obtain ps where ps: "map_raising (get_record_pieces dk mk) rs = Inr ps"
    by (auto simp: extract_group_metadata_def split: sum.splits)
  with assms have "rows = map fst ps"
    by (auto simp: extract_group_metadata_def Let_def split: sum.splits if_splits)
  with ps show ?thesis by (auto simp: map_raising_Inr)
qed

lemma get_record_pieces_row:
  assumes "dk \<noteq> mk" "get_record_pieces dk mk r = Inr (row, g)"
  shows "\<exists>d gm md. map_of r dk = Some (PDict d)
        \<and> dict_get d MATHESAR_GROUP_METADATA (PDict []) = PDict gm
        \<and> dict_get r mk (PDict []) = PDict md
        \<and> row = [(dk, PDict (filter (\<lambda>(k, v). k \<noteq> MATHESAR_GROUP_METADATA) d)),
                  (mk, PDict (dict_set md ''group_id'' (dict_get gm ''group_id'' PNone)))]
        \<and> g = (if gm \<noteq> [] then PDict gm else PNone)"
  using assms unfolding get_record_pieces_Inr by (auto simp: dict_set_def)

lemma get_record_pieces_again:
  assumes "dk \<noteq> mk" "get_record_pieces dk mk r = Inr (row, g)"
  shows "\<exists>d md. row = [(dk, PDict d), (mk, PDict md)]
     \<and> get_record_pieces dk mk row
         = Inr ([(dk, PDict d), (mk, PDict (dict_set md ''group_id'' PNone))], PNone)"
proof -
  from get_record_pieces_row [OF assms] obtain d gm md where
    row: "row = [(dk, PDict (filter (\<lambda>(k, v). k \<noteq> MATHESAR_GROUP_METADATA) d)),
                  (mk, PDict (dict_set md ''group_id'' (dict_get gm ''group_id'' PNone)))]"
    by blast
  let ?d = "filter (\<lambda>(k, v). k \<noteq> MATHESAR_GROUP_METADATA) d"
  let ?md = "dict_set md ''group_id'' (dict_get gm ''group_id'' PNone)"
  have f: "filter (\<lambda>(k, v). k \<noteq> MATHESAR_GROUP_METADATA) ?d = ?d" by simp
  have "get_record_pieces dk mk [(dk, PDict ?d), (mk, PDict ?md)]
      = Inr ([(dk, PDict ?d), (mk, PDict (dict_set ?md ''group_id'' PNone))], PNone)"
    using assms(1)
    by (simp add: get_record_pieces_def Let_def dict_get_def filter_reserved_lookup f
        del: filter_filter) (simp add: dict_set_def)
  with row show ?thesis by blast
qed


subsection \<open>The empty input\<close>

text \<open>
  Claim C9. On the empty sequence of records \<^verbatim>\<open>extract_group_metadata\<close> raises: \<^verbatim>\<open>zip\<close> of
  no arguments yields nothing and the unpacking into two names fails with
  \<^verbatim>\<open>ValueError\<close>, whatever the keys and the iteration order of sets.
\<close>

theorem extract_empty_input_raises:
  "extract_group_metadata set_order [] data_key metadata_key = Inl ValueError"
  by (simp add: extract_group_metadata_def)

subsection \<open>Rows without group metadata\<close>

text \<open>
  Claim C1. The claim says that a row whose data section lacks the reserved field, or
  holds an empty object there, is emitted without an error and adds nothing to the group
  table. The code raises instead: the \<^verbatim>\<open>None\<close> that stands for "no group metadata" is
  encoded as \<^verbatim>\<open>null\<close>, decoded again, and \<^verbatim>\<open>sorted\<close> applies \<^verbatim>\<open>x['group_id']\<close> to it:
  \<^verbatim>\<open>TypeError\<close>. Here the code is evaluated at two such inputs of one row each (the set of
  blobs has one element, so its iteration order does not matter).
\<close>

theorem extract_raises_without_group_metadata:
  "extract_group_metadata remdups [[(''data'', PDict [(''a'', PInt 1)])]] ''data'' ''metadata''
     = Inl TypeError
   \<and> extract_group_metadata remdups
       [[(''data'', PDict [(''a'', PInt 1), (''__mathesar_group_metadata'', PDict [])])]]
       ''data'' ''metadata''
     = Inl TypeError"
  by code_simp

text \<open>
  The same in general, for every iteration order of sets: when some record of the input
  (records without repeated keys) has no group metadata, that is when its per-row step
  returns \<^verbatim>\<open>None\<close> for the group, the extractor raises.
\<close>

theorem extract_raises_on_any_row_without_group_metadata:
  assumes "set_iteration set_order" and "\<forall>r\<in>set rs. wf_pyval (PDict r)"
    and "r \<in> set rs" and "get_record_pieces data_key metadata_key r = Inr (row, PNone)"
  shows "\<exists>e. extract_group_metadata set_order rs data_key metadata_key = Inl e"
proof (cases "extract_group_metadata set_order rs data_key metadata_key")
  case (Inl e)
  then show ?thesis by blast
next
  case (Inr res)
  obtain rows groups where "res = (rows, groups)" by (cases res)
  with Inr have ex: "extract_group_metadata set_order rs data_key metadata_key
      = Inr (rows, groups)" by simp
  from extract_Inr_D [OF assms(1,2) ex] obtain ps where
    m: "map (get_record_pieces data_key metadata_key) rs = map Inr ps"
    and sg: "set groups = snd ` set ps"
    and keys: "\<forall>g\<in>set groups. \<exists>k. group_id_key g = Inr k"
    by blast
  from map_Inr_set [OF m] assms(3,4) have "(row, PNone) \<in> set ps" by blast
  then have "snd (row, PNone) \<in> snd ` set ps" by (rule imageI)
  with sg have "PNone \<in> set groups" by simp
  with keys have "\<exists>k. group_id_key PNone = Inr k" by blast
  then show ?thesis by simp
qed

theorem extract_raises_on_any_row_without_group_metadata_witness:
  "set_iteration remdups
   \<and> wf_pyval (PDict [(''data'', PDict [(''a'', PInt 1)])])
   \<and> wf_pyval (PDict [(''data'', PDict [(''__mathesar_group_metadata'',
           PDict [(''group_id'', PInt 1), (''count'', PInt 2)])])])
   \<and> get_record_pieces ''data'' ''metadata'' [(''data'', PDict [(''a'', PInt 1)])]
       = Inr ([(''data'', PDict [(''a'', PInt 1)]), (''metadata'', PDict [(''group_id'', PNone)])],
              PNone)
   \<and> (\<exists>e. extract_group_metadata remdups
         [[(''data'', PDict [(''__mathesar_group_metadata'',
              PDict [(''group_id'', PInt 1), (''count'', PInt 2)])])],
          [(''data'', PDict [(''a'', PInt 1)])]]
         ''data'' ''metadata'' = Inl e)"
proof -
  let ?r1 = "[(''data'', PDict [(''__mathesar_group_metadata'',
           PDict [(''group_id'', PInt 1), (''count'', PInt 2)])])]"
  let ?r0 = "[(''data'', PDict [(''a'', PInt 1)])]"
  have h1: "set_iteration remdups" by (simp add: set_iteration_def)
  have w: "wf_pyval (PDict ?r0)" "wf_pyval (PDict ?r1)"
    by (simp_all add: MATHESAR_GROUP_METADATA_def)
  then have h2: "\<forall>r\<in>set [?r1, ?r0]. wf_pyval (PDict r)" by simp
  have h3: "?r0 \<in> set [?r1, ?r0]" by simp
  have h4: "get_record_pieces ''data'' ''metadata'' ?r0
       = Inr ([(''data'', PDict [(''a'', PInt 1)]), (''metadata'', PDict [(''group_id'', PNone)])],
              PNone)"
    by code_simp
  from extract_raises_on_any_row_without_group_metadata [OF h1 h2 h3 h4]
  have e: "\<exists>e. extract_group_metadata remdups [?r1, ?r0] ''data'' ''metadata'' = Inl e" .
  from h1 w h4 e show ?thesis by (intro conjI)
qed

subsection \<open>The emitted rows\<close>

text \<open>
  Claim C4. For distinct section keys: whenever the extractor returns, it returns one row
  per input row, in the order of the input; row \<open>i\<close> consists of the data section of input
  row \<open>i\<close> without the reserved field, and of a metadata section that is the metadata of
  the input row (empty when the row has none) with \<^verbatim>\<open>group_id\<close> set to the \<^verbatim>\<open>group_id\<close>
  of the row's group metadata: a lookup of \<^verbatim>\<open>group_id\<close> in it gives the new value, a
  lookup of any other key gives what the old metadata gave. And the extractor does return
  on every non-empty input of records, without repeated keys, whose data sections carry
  group metadata with an integer \<^verbatim>\<open>group_id\<close>.
\<close>

theorem extract_rows:
  assumes "data_key \<noteq> metadata_key"
  shows "(extract_group_metadata set_order rs data_key metadata_key = Inr (rows, groups) \<longrightarrow>
       length rows = length rs
       \<and> (\<forall>i<length rs. \<exists>d gm md.
             map_of (rs ! i) data_key = Some (PDict d)
           \<and> dict_get d MATHESAR_GROUP_METADATA (PDict []) = PDict gm
           \<and> dict_get (rs ! i) metadata_key (PDict []) = PDict md
           \<and> rows ! i =
               [(data_key, PDict (filter (\<lambda>(k, v). k \<noteq> MATHESAR_GROUP_METADATA) d)),
                (metadata_key,
                 PDict (dict_set md ''group_id'' (dict_get gm ''group_id'' PNone)))]))
    \<and> (\<forall>md k v k'. map_of (dict_set md k v) k' = (if k' = k then Some v else map_of md k'))
    \<and> (set_iteration set_order \<and> rs \<noteq> []
        \<and> (\<forall>r\<in>set rs. wf_pyval (PDict r)
              \<and> (\<exists>row g k. get_record_pieces data_key metadata_key r = Inr (row, g)
                     \<and> group_id_key g = Inr k \<and> int_key k \<noteq> None)) \<longrightarrow>
        (\<exists>rows groups.
            extract_group_metadata set_order rs data_key metadata_key = Inr (rows, groups)))"
  (is "(?a \<longrightarrow> ?A) \<and> ?Q \<and> (?b \<longrightarrow> ?B)")
proof -
  have A: "length rows = length rs
       \<and> (\<forall>i<length rs. \<exists>d gm md.
             map_of (rs ! i) data_key = Some (PDict d)
           \<and> dict_get d MATHESAR_GROUP_METADATA (PDict []) = PDict gm
           \<and> dict_get (rs ! i) metadata_key (PDict []) = PDict md
           \<and> rows ! i =
               [(data_key, PDict (filter (\<lambda>(k, v). k \<noteq> MATHESAR_GROUP_METADATA) d)),
                (metadata_key,
                 PDict (dict_set md ''group_id'' (dict_get gm ''group_id'' PNone)))])"
    if ex: "extract_group_metadata set_order rs data_key metadata_key = Inr (rows, groups)"
  proof -
    from extract_rows_pieces [OF ex] obtain ps where
      ps: "map (get_record_pieces data_key metadata_key) rs = map Inr ps" "rows = map fst ps"
      by blast
    from ps(1) have len: "length ps = length rs" by (metis length_map)
    have "\<exists>d gm md.
             map_of (rs ! i) data_key = Some (PDict d)
           \<and> dict_get d MATHESAR_GROUP_METADATA (PDict []) = PDict gm
           \<and> dict_get (rs ! i) metadata_key (PDict []) = PDict md
           \<and> rows ! i =
               [(data_key, PDict (filter (\<lambda>(k, v). k \<noteq> MATHESAR_GROUP_METADATA) d)),
                (metadata_key,
                 PDict (dict_set md ''group_id'' (dict_get gm ''group_id'' PNone)))]"
      if i: "i < length rs" for i
    proof -
      from i ps(1) len have "get_record_pieces data_key metadata_key (rs ! i) = Inr (ps ! i)"
        by (metis nth_map)
      then have g: "get_record_pieces data_key metadata_key (rs ! i)
          = Inr (fst (ps ! i), snd (ps ! i))" by simp
      from i len ps(2) have "rows ! i = fst (ps ! i)" by simp
      with get_record_pieces_row [OF assms g] show ?thesis by auto
    qed
    with len ps(2) show ?thesis by simp
  qed
  have B: "\<exists>rows groups.
            extract_group_metadata set_order rs data_key metadata_key = Inr (rows, groups)"
    if a: "set_iteration set_order \<and> rs \<noteq> []
        \<and> (\<forall>r\<in>set rs. wf_pyval (PDict r)
              \<and> (\<exists>row g k. get_record_pieces data_key metadata_key r = Inr (row, g)
                     \<and> group_id_key g = Inr k \<and> int_key k \<noteq> None))"
  proof -
    from a have "\<forall>r\<in>set rs. \<exists>p. get_record_pieces data_key metadata_key r = Inr p" by blast
    from map_raising_total [OF this] obtain ps where
      "map_raising (get_record_pieces data_key metadata_key) rs = Inr ps" by blast
    then have m: "map (get_record_pieces data_key metadata_key) rs = map Inr ps"
      by (simp only: map_raising_Inr)
    from map_Inr_set [OF m]
    have sp: "set ps = {p. \<exists>r\<in>set rs. get_record_pieces data_key metadata_key r = Inr p}" .
    have k: "\<exists>k. group_id_key g = Inr k \<and> int_key k \<noteq> None" if "g \<in> snd ` set ps" for g
    proof -
      from that obtain row where "(row, g) \<in> set ps" by auto
      with sp obtain r where r: "r \<in> set rs"
        "get_record_pieces data_key metadata_key r = Inr (row, g)" by blast
      from a r(1) obtain row' g' k' where
        "get_record_pieces data_key metadata_key r = Inr (row', g')"
        "group_id_key g' = Inr k'" "int_key k' \<noteq> None" by blast
      with r(2) show ?thesis by simp
    qed
    then have keys: "\<forall>g\<in>snd ` set ps. \<exists>k. group_id_key g = Inr k" by blast
    have "\<forall>g\<in>snd ` set ps. int_key (group_id_of g) \<noteq> None"
    proof
      fix g assume "g \<in> snd ` set ps"
      from k [OF this] obtain k' where "group_id_key g = Inr k'" "int_key k' \<noteq> None"
        by blast
      then show "int_key (group_id_of g) \<noteq> None" by (simp add: group_id_of_key)
    qed
    then have kinds: "card (snd ` set ps) \<le> 1
        \<or> (\<forall>g\<in>snd ` set ps. int_key (group_id_of g) \<noteq> None)
        \<or> (\<forall>g\<in>snd ` set ps. str_key (group_id_of g) \<noteq> None)" by blast
    from a have "set_iteration set_order" "\<forall>r\<in>set rs. wf_pyval (PDict r)" "rs \<noteq> []"
      by blast+
    from extract_Inr_I [OF this m keys kinds] show ?thesis by blast
  qed
  have "?a \<longrightarrow> ?A" by (rule impI) (rule A)
  moreover have ?Q by (simp add: dict_set_lookup)
  moreover have "?b \<longrightarrow> ?B" by (rule impI) (rule B)
  ultimately show ?thesis by (intro conjI)
qed

theorem extract_rows_witness:
  "''data'' \<noteq> ''metadata''
   \<and> set_iteration remdups
   \<and> extract_group_metadata remdups
      [[(''data'', PDict [(''a'', PInt 1), (''__mathesar_group_metadata'',
           PDict [(''group_id'', PInt 2), (''count'', PInt 1)])])],
       [(''data'', PDict [(''__mathesar_group_metadata'',
           PDict [(''group_id'', PInt 1), (''count'', PInt 1)]), (''a'', PInt 5)]),
        (''metadata'', PDict [(''x'', PNone), (''group_id'', PInt 7)])]]
      ''data'' ''metadata''
    = Inr ([[(''data'', PDict [(''a'', PInt 1)]), (''metadata'', PDict [(''group_id'', PInt 2)])],
            [(''data'', PDict [(''a'', PInt 5)]),
             (''metadata'', PDict [(''x'', PNone), (''group_id'', PInt 1)])]],
           [PDict [(''group_id'', PInt 1), (''count'', PInt 1)],
            PDict [(''group_id'', PInt 2), (''count'', PInt 1)]])
   \<and> length [[(''data'', PDict [(''a'', PInt 1)]), (''metadata'', PDict [(''group_id'', PInt 2)])],
            [(''data'', PDict [(''a'', PInt 5)]),
             (''metadata'', PDict [(''x'', PNone), (''group_id'', PInt 1)])]]
       = length [[(''data'', PDict [(''a'', PInt 1), (''__mathesar_group_metadata'',
           PDict [(''group_id'', PInt 2), (''count'', PInt 1)])])],
       [(''data'', PDict [(''__mathesar_group_metadata'',
           PDict [(''group_id'', PInt 1), (''count'', PInt 1)]), (''a'', PInt 5)]),
        (''metadata'', PDict [(''x'', PNone), (''group_id'', PInt 7)])]]
   \<and> (\<exists>rows groups. extract_group_metadata remdups
      [[(''data'', PDict [(''a'', PInt 1), (''__mathesar_group_metadata'',
           PDict [(''group_id'', PInt 2), (''count'', PInt 1)])])],
       [(''data'', PDict [(''__mathesar_group_metadata'',
           PDict [(''group_id'', PInt 1), (''count'', PInt 1)]), (''a'', PInt 5)]),
        (''metadata'', PDict [(''x'', PNone), (''group_id'', PInt 7)])]]
      ''data'' ''metadata'' = Inr (rows, groups))"
proof -
  let ?r1 = "[(''data'', PDict [(''a'', PInt 1), (''__mathesar_group_metadata'',
           PDict [(''group_id'', PInt 2), (''count'', PInt 1)])])]"
  let ?r2 = "[(''data'', PDict [(''__mathesar_group_metadata'',
           PDict [(''group_id'', PInt 1), (''count'', PInt 1)]), (''a'', PInt 5)]),
        (''metadata'', PDict [(''x'', PNone), (''group_id'', PInt 7)])]"
  let ?rows = "[[(''data'', PDict [(''a'', PInt 1)]), (''metadata'', PDict [(''group_id'', PInt 2)])],
            [(''data'', PDict [(''a'', PInt 5)]),
             (''metadata'', PDict [(''x'', PNone), (''group_id'', PInt 1)])]]"
  let ?groups = "[PDict [(''group_id'', PInt 1), (''count'', PInt 1)],
            PDict [(''group_id'', PInt 2), (''count'', PInt 1)]]"
  have h1: "''data'' \<noteq> ''metadata''" by simp
  have h2: "set_iteration remdups" by (simp add: set_iteration_def)
  have h3: "extract_group_metadata remdups [?r1, ?r2] ''data'' ''metadata''
      = Inr (?rows, ?groups)"
    by code_simp
  note t = extract_rows [OF h1, of remdups "[?r1, ?r2]" ?rows ?groups]
  from t h3 have l: "length ?rows = length [?r1, ?r2]" by blast
  have p1: "get_record_pieces ''data'' ''metadata'' ?r1
      = Inr ([(''data'', PDict [(''a'', PInt 1)]), (''metadata'', PDict [(''group_id'', PInt 2)])],
             PDict [(''group_id'', PInt 2), (''count'', PInt 1)])"
    by code_simp
  have p2: "get_record_pieces ''data'' ''metadata'' ?r2
      = Inr ([(''data'', PDict [(''a'', PInt 5)]),
              (''metadata'', PDict [(''x'', PNone), (''group_id'', PInt 1)])],
             PDict [(''group_id'', PInt 1), (''count'', PInt 1)])"
    by code_simp
  have w: "wf_pyval (PDict ?r1)" "wf_pyval (PDict ?r2)"
    by (simp_all add: MATHESAR_GROUP_METADATA_def)
  have "set_iteration remdups \<and> [?r1, ?r2] \<noteq> []
        \<and> (\<forall>r\<in>set [?r1, ?r2]. wf_pyval (PDict r)
              \<and> (\<exists>row g k. get_record_pieces ''data'' ''metadata'' r = Inr (row, g)
                     \<and> group_id_key g = Inr k \<and> int_key k \<noteq> None))"
    using h2 w p1 p2 by simp
  with t have e: "\<exists>rows groups.
      extract_group_metadata remdups [?r1, ?r2] ''data'' ''metadata'' = Inr (rows, groups)"
    by blast
  from h1 h2 h3 l e show ?thesis by (intro conjI)
qed

subsection \<open>Running the extractor on its own output\<close>

text \<open>
  Claim C2 says that the extractor applied to its own output rows returns the same rows
  and an empty group table. It does not: on the output of a run over one row the second
  run raises \<^verbatim>\<open>TypeError\<close>.
\<close>

theorem extract_twice_counterexample:
  "extract_group_metadata remdups
      [[(''data'', PDict [(''a'', PInt 1),
          (''__mathesar_group_metadata'',
           PDict [(''group_id'', PInt 1), (''count'', PInt 1)])])]]
      ''data'' ''metadata''
    = Inr ([[(''data'', PDict [(''a'', PInt 1)]), (''metadata'', PDict [(''group_id'', PInt 1)])]],
           [PDict [(''group_id'', PInt 1), (''count'', PInt 1)]])
  \<and> extract_group_metadata remdups
      [[(''data'', PDict [(''a'', PInt 1)]), (''metadata'', PDict [(''group_id'', PInt 1)])]]
      ''data'' ''metadata''
    = Inl TypeError"
  by code_simp

text \<open>
  Claim C2, amended. For distinct section keys, every row the extractor has emitted
  consists of a data and a metadata section, and the per-row step
  \<^verbatim>\<open>_get_record_pieces\<close> applied to it succeeds, finds no group metadata (\<^verbatim>\<open>None\<close>), leaves
  the data section as it is and returns the metadata section with \<^verbatim>\<open>group_id\<close> set to
  \<^verbatim>\<open>None\<close> and every other key as before; the row is unchanged when its
  \<^verbatim>\<open>group_id\<close> was \<^verbatim>\<open>None\<close> already.
\<close>

theorem get_record_pieces_on_output:
  assumes "data_key \<noteq> metadata_key"
    and "extract_group_metadata set_order rs data_key metadata_key = Inr (rows, groups)"
    and "row \<in> set rows"
  shows "\<exists>d md. row = [(data_key, PDict d), (metadata_key, PDict md)]
     \<and> get_record_pieces data_key metadata_key row
         = Inr ([(data_key, PDict d), (metadata_key, PDict (dict_set md ''group_id'' PNone))],
                PNone)
     \<and> (\<forall>k. map_of (dict_set md ''group_id'' PNone) k
              = (if k = ''group_id'' then Some PNone else map_of md k))
     \<and> (map_of md ''group_id'' = Some PNone \<longrightarrow> dict_set md ''group_id'' PNone = md)"
proof -
  from extract_rows_pieces [OF assms(2)] obtain ps where
    ps: "map (get_record_pieces data_key metadata_key) rs = map Inr ps" "rows = map fst ps"
    by blast
  from assms(3) ps(2) obtain g where "(row, g) \<in> set ps" by auto
  with map_Inr_set [OF ps(1)] obtain r where
    "get_record_pieces data_key metadata_key r = Inr (row, g)" by blast
  from get_record_pieces_again [OF assms(1) this] obtain d md where
    "row = [(data_key, PDict d), (metadata_key, PDict md)]"
    "get_record_pieces data_key metadata_key row
         = Inr ([(data_key, PDict d), (metadata_key, PDict (dict_set md ''group_id'' PNone))],
                PNone)"
    by blast
  then show ?thesis
    by (intro exI [of _ d] exI [of _ md]) (simp add: dict_set_lookup dict_set_same)
qed

theorem get_record_pieces_on_output_witness:
  "''data'' \<noteq> ''metadata''
   \<and> extract_group_metadata remdups
      [[(''data'', PDict [(''a'', PInt 1),
          (''__mathesar_group_metadata'',
           PDict [(''group_id'', PInt 1), (''count'', PInt 1)])])]]
      ''data'' ''metadata''
    = Inr ([[(''data'', PDict [(''a'', PInt 1)]), (''metadata'', PDict [(''group_id'', PInt 1)])]],
           [PDict [(''group_id'', PInt 1), (''count'', PInt 1)]])
   \<and> get_record_pieces ''data'' ''metadata''
        [(''data'', PDict [(''a'', PInt 1)]), (''metadata'', PDict [(''group_id'', PInt 1)])]
      = Inr ([(''data'', PDict [(''a'', PInt 1)]), (''metadata'', PDict [(''group_id'', PNone)])],
             PNone)"
proof -
  have h1: "''data'' \<noteq> ''metadata''" by simp
  have h2: "extract_group_metadata remdups
      [[(''data'', PDict [(''a'', PInt 1),
          (''__mathesar_group_metadata'',
           PDict [(''group_id'', PInt 1), (''count'', PInt 1)])])]]
      ''data'' ''metadata''
    = Inr ([[(''data'', PDict [(''a'', PInt 1)]), (''metadata'', PDict [(''group_id'', PInt 1)])]],
           [PDict [(''group_id'', PInt 1), (''count'', PInt 1)]])"
    by code_simp
  have h3: "[(''data'', PDict [(''a'', PInt 1)]), (''metadata'', PDict [(''group_id'', PInt 1)])]
      \<in> set [[(''data'', PDict [(''a'', PInt 1)]),
                (''metadata'', PDict [(''group_id'', PInt 1)])]]"
    by simp
  from get_record_pieces_on_output [OF h1 h2 h3]
  have "get_record_pieces ''data'' ''metadata''
        [(''data'', PDict [(''a'', PInt 1)]), (''metadata'', PDict [(''group_id'', PInt 1)])]
      = Inr ([(''data'', PDict [(''a'', PInt 1)]), (''metadata'', PDict [(''group_id'', PNone)])],
             PNone)"
    by (auto simp: dict_set_def)
  with h1 h2 show ?thesis by (intro conjI)
qed

subsection \<open>The group table\<close>

text \<open>
  Claim C3 says that two group-metadata objects with the same fields and values collapse
  to one entry whatever the order of their keys. They do not: the objects are compared
  through their JSON text, which lists the keys in insertion order. Two rows whose
  objects differ in the order of the keys only give a table of two entries (shown here in
  the order of first occurrence; the two have the same \<^verbatim>\<open>group_id\<close>, so Python emits them
  in the order in which it iterates the set of the two texts).
\<close>

theorem key_order_counterexample:
  "extract_group_metadata remdups
      [[(''data'', PDict [(''__mathesar_group_metadata'',
           PDict [(''group_id'', PInt 1), (''count'', PInt 2)])])],
       [(''data'', PDict [(''__mathesar_group_metadata'',
           PDict [(''count'', PInt 2), (''group_id'', PInt 1)])])]]
      ''data'' ''metadata''
    = Inr ([[(''data'', PDict []), (''metadata'', PDict [(''group_id'', PInt 1)])],
            [(''data'', PDict []), (''metadata'', PDict [(''group_id'', PInt 1)])]],
           [PDict [(''group_id'', PInt 1), (''count'', PInt 2)],
            PDict [(''count'', PInt 2), (''group_id'', PInt 1)]])"
  by code_simp

text \<open>
  Claim C3, amended. Deduplication is by equality of the JSON text, that is by structural
  equality in which the order of the keys counts. Whenever the extractor returns (for
  records whose dictionaries hold no key twice, and any iteration order of sets), the
  group table has no entry twice and its entries are exactly the group-metadata objects of
  the rows, so that rows with the same object, keys in the same order, share one entry
  wherever they stand; every permutation of the rows returns as well, with a table of the
  same content as a set; and the table is ascending by \<^verbatim>\<open>group_id\<close>.
\<close>

theorem group_table_deduplicated:
  assumes "set_iteration set_order" and "\<forall>r\<in>set rs. wf_pyval (PDict r)"
    and "extract_group_metadata set_order rs data_key metadata_key = Inr (rows, groups)"
  shows "distinct groups
     \<and> set groups
         = {g. \<exists>r\<in>set rs. \<exists>row. get_record_pieces data_key metadata_key r = Inr (row, g)}
     \<and> sorted_wrt py_le (map group_id_of groups)
     \<and> (\<forall>rs'. mset rs' = mset rs \<longrightarrow>
          (\<exists>rows' groups'.
              extract_group_metadata set_order rs' data_key metadata_key = Inr (rows', groups')
            \<and> set groups' = set groups))"
proof -
  from extract_Inr_D [OF assms] obtain ps where
    m: "map (get_record_pieces data_key metadata_key) rs = map Inr ps" and rne: "rs \<noteq> []"
    and dg: "distinct groups" and sg: "set groups = snd ` set ps"
    and keys: "\<forall>g\<in>set groups. \<exists>k. group_id_key g = Inr k"
    and srt: "sorted_wrt py_le (map group_id_of groups)"
    and kinds: "length groups \<le> 1 \<or> (\<forall>g\<in>set groups. int_key (group_id_of g) \<noteq> None)
          \<or> (\<forall>g\<in>set groups. str_key (group_id_of g) \<noteq> None)"
    by blast
  from map_Inr_set [OF m]
  have sp: "set ps = {p. \<exists>r\<in>set rs. get_record_pieces data_key metadata_key r = Inr p}" .
  have content: "set groups
      = {g. \<exists>r\<in>set rs. \<exists>row. get_record_pieces data_key metadata_key r = Inr (row, g)}"
  proof (intro set_eqI iffI)
    fix g assume "g \<in> set groups"
    with sg obtain row where "(row, g) \<in> set ps" by auto
    with sp show "g \<in> {g. \<exists>r\<in>set rs. \<exists>row.
        get_record_pieces data_key metadata_key r = Inr (row, g)}" by blast
  next
    fix g assume "g \<in> {g. \<exists>r\<in>set rs. \<exists>row.
        get_record_pieces data_key metadata_key r = Inr (row, g)}"
    then obtain r row where "r \<in> set rs"
      "get_record_pieces data_key metadata_key r = Inr (row, g)" by blast
    with sp have "(row, g) \<in> set ps" by blast
    then have "snd (row, g) \<in> snd ` set ps" by (rule imageI)
    with sg show "g \<in> set groups" by simp
  qed
  have perm: "\<exists>rows' groups'.
      extract_group_metadata set_order rs' data_key metadata_key = Inr (rows', groups')
      \<and> set groups' = set groups" if p: "mset rs' = mset rs" for rs'
  proof -
    from p have s: "set rs' = set rs" by (rule mset_eq_setD)
    from p rne have rne': "rs' \<noteq> []" by auto
    from s assms(2) have wf': "\<forall>r\<in>set rs'. wf_pyval (PDict r)" by simp
    have "\<forall>r\<in>set rs'. \<exists>q. get_record_pieces data_key metadata_key r = Inr q"
      using map_Inr_all [OF m] s by simp
    from map_raising_total [OF this] obtain ps' where
      "map_raising (get_record_pieces data_key metadata_key) rs' = Inr ps'" by blast
    then have m': "map (get_record_pieces data_key metadata_key) rs' = map Inr ps'"
      by (simp only: map_raising_Inr)
    from map_Inr_set [OF m'] s sp have sp': "set ps' = set ps" by simp
    from keys sg sp' have keys': "\<forall>g\<in>snd ` set ps'. \<exists>k. group_id_key g = Inr k" by simp
    have "card (set groups) = length groups" using dg by (rule distinct_card)
    with kinds sg sp' have kinds': "card (snd ` set ps') \<le> 1
        \<or> (\<forall>g\<in>snd ` set ps'. int_key (group_id_of g) \<noteq> None)
        \<or> (\<forall>g\<in>snd ` set ps'. str_key (group_id_of g) \<noteq> None)" by auto
    from extract_Inr_I [OF assms(1) wf' rne' m' keys' kinds'] obtain groups' where
      ex': "extract_group_metadata set_order rs' data_key metadata_key
          = Inr (map fst ps', groups')" by blast
    from extract_Inr_D [OF assms(1) wf' ex'] obtain qs where
      "map (get_record_pieces data_key metadata_key) rs' = map Inr qs"
      "set groups' = snd ` set qs" by blast
    with m' have "set groups' = snd ` set ps'"
      by (simp add: inj_map_eq_map)
    with sp' sg ex' show ?thesis by blast
  qed
  have "\<forall>rs'. mset rs' = mset rs \<longrightarrow>
          (\<exists>rows' groups'.
              extract_group_metadata set_order rs' data_key metadata_key = Inr (rows', groups')
            \<and> set groups' = set groups)"
    by (intro allI impI perm)
  with dg content srt show ?thesis by (intro conjI)
qed

theorem group_table_deduplicated_witness:
  "set_iteration remdups
   \<and> wf_pyval (PDict [(''data'', PDict [(''__mathesar_group_metadata'',
           PDict [(''group_id'', PInt 2), (''count'', PInt 1)])])])
   \<and> wf_pyval (PDict [(''data'', PDict [(''__mathesar_group_metadata'',
           PDict [(''group_id'', PInt 1), (''count'', PInt 2)])])])
   \<and> extract_group_metadata remdups
      [[(''data'', PDict [(''__mathesar_group_metadata'',
           PDict [(''group_id'', PInt 2), (''count'', PInt 1)])])],
       [(''data'', PDict [(''__mathesar_group_metadata'',
           PDict [(''group_id'', PInt 1), (''count'', PInt 2)])])],
       [(''data'', PDict [(''__mathesar_group_metadata'',
           PDict [(''group_id'', PInt 1), (''count'', PInt 2)])])]]
      ''data'' ''metadata''
    = Inr ([[(''data'', PDict []), (''metadata'', PDict [(''group_id'', PInt 2)])],
            [(''data'', PDict []), (''metadata'', PDict [(''group_id'', PInt 1)])],
            [(''data'', PDict []), (''metadata'', PDict [(''group_id'', PInt 1)])]],
           [PDict [(''group_id'', PInt 1), (''count'', PInt 2)],
            PDict [(''group_id'', PInt 2), (''count'', PInt 1)]])
   \<and> distinct [PDict [(''group_id'', PInt 1), (''count'', PInt 2)],
                 PDict [(''group_id'', PInt 2), (''count'', PInt 1)]]
   \<and> sorted_wrt py_le (map group_id_of
         [PDict [(''group_id'', PInt 1), (''count'', PInt 2)],
          PDict [(''group_id'', PInt 2), (''count'', PInt 1)]])
   \<and> (\<exists>rows' groups'. extract_group_metadata remdups
      [[(''data'', PDict [(''__mathesar_group_metadata'',
           PDict [(''group_id'', PInt 1), (''count'', PInt 2)])])],
       [(''data'', PDict [(''__mathesar_group_metadata'',
           PDict [(''group_id'', PInt 1), (''count'', PInt 2)])])],
       [(''data'', PDict [(''__mathesar_group_metadata'',
           PDict [(''group_id'', PInt 2), (''count'', PInt 1)])])]]
      ''data'' ''metadata'' = Inr (rows', groups')
      \<and> set groups' = {PDict [(''group_id'', PInt 1), (''count'', PInt 2)],
                         PDict [(''group_id'', PInt 2), (''count'', PInt 1)]})"
proof -
  let ?r2 = "[(''data'', PDict [(''__mathesar_group_metadata'',
           PDict [(''group_id'', PInt 2), (''count'', PInt 1)])])]"
  let ?r1 = "[(''data'', PDict [(''__mathesar_group_metadata'',
           PDict [(''group_id'', PInt 1), (''count'', PInt 2)])])]"
  let ?g1 = "PDict [(''group_id'', PInt 1), (''count'', PInt 2)]"
  let ?g2 = "PDict [(''group_id'', PInt 2), (''count'', PInt 1)]"
  have h1: "set_iteration remdups" by (simp add: set_iteration_def)
  have w2: "wf_pyval (PDict ?r2)" and w1: "wf_pyval (PDict ?r1)"
    by (simp_all add: MATHESAR_GROUP_METADATA_def)
  then have h2: "\<forall>r\<in>set [?r2, ?r1, ?r1]. wf_pyval (PDict r)" by simp
  have h3: "extract_group_metadata remdups [?r2, ?r1, ?r1] ''data'' ''metadata''
    = Inr ([[(''data'', PDict []), (''metadata'', PDict [(''group_id'', PInt 2)])],
            [(''data'', PDict []), (''metadata'', PDict [(''group_id'', PInt 1)])],
            [(''data'', PDict []), (''metadata'', PDict [(''group_id'', PInt 1)])]],
           [?g1, ?g2])"
    by code_simp
  note t = group_table_deduplicated [OF h1 h2 h3]
  from t have d: "distinct [?g1, ?g2]" by (rule conjunct1)
  from t have s: "sorted_wrt py_le (map group_id_of [?g1, ?g2])" by blast
  have p: "mset [?r1, ?r1, ?r2] = mset [?r2, ?r1, ?r1]" by simp
  from t have "\<forall>rs'. mset rs' = mset [?r2, ?r1, ?r1] \<longrightarrow>
          (\<exists>rows' groups'.
              extract_group_metadata remdups rs' ''data'' ''metadata'' = Inr (rows', groups')
            \<and> set groups' = set [?g1, ?g2])" by blast
  with p have "\<exists>rows' groups'.
      extract_group_metadata remdups [?r1, ?r1, ?r2] ''data'' ''metadata'' = Inr (rows', groups')
      \<and> set groups' = set [?g1, ?g2]" by blast
  then have e: "\<exists>rows' groups'.
      extract_group_metadata remdups [?r1, ?r1, ?r2] ''data'' ''metadata'' = Inr (rows', groups')
      \<and> set groups' = {?g1, ?g2}" by simp
  from h1 w2 w1 h3 d s e show ?thesis by (intro conjI)
qed

end
